theory Spec2Isabelle
  imports Main "HOL-Library.Word"
begin

unbundle bit_operations_syntax

section \<open>Cell codec (src/cell.ts)\<close>

text \<open>
  A JavaScript string is modelled as the list of its code points (\<open>jsstring\<close>); ASCII
  literals are injected with \<open>str\<close>.  The \<open>Color\<close> type of the sources is
  \<^verbatim>\<open>`#${string}` | number\<close>: a palette number or a string.  An optional colour
  (\<^verbatim>\<open>Color | undefined\<close>) is a \<open>Color option\<close>.
\<close>

type_synonym jsstring = "nat list"

definition str :: "string \<Rightarrow> jsstring" where
  "str s = map of_char s"

datatype Color = Palette nat | Hex string

text \<open>JavaScript truthiness of an optional colour: \<open>undefined\<close>, the number 0 and
  the empty string are falsy.\<close>

fun truthy :: "Color option \<Rightarrow> bool" where
  "truthy None = False"
| "truthy (Some (Palette n)) = (n \<noteq> 0)"
| "truthy (Some (Hex s)) = (s \<noteq> [])"

definition COLOR_NONE :: nat where "COLOR_NONE = 0x0000"
definition COLOR_PALETTE_START :: nat where "COLOR_PALETTE_START = 0x0001"
definition COLOR_RGB_START :: nat where "COLOR_RGB_START = 0x0101"

definition CHAR_MASK :: "32 word" where "CHAR_MASK = 0x1fffff"
definition ATTR_SHIFT :: nat where "ATTR_SHIFT = 24"

text \<open>\<^verbatim>\<open>HEX_COLOR_REGEX = /^#([0-9a-fA-F]{6})$/\<close>: the match returns the six digits.\<close>

definition isHexDigit :: "char \<Rightarrow> bool" where
  "isHexDigit c = (let n = (of_char c :: nat) in
     (48 \<le> n \<and> n \<le> 57) \<or> (97 \<le> n \<and> n \<le> 102) \<or> (65 \<le> n \<and> n \<le> 70))"

definition hexMatch :: "string \<Rightarrow> string option" where
  "hexMatch s = (case s of
       [] \<Rightarrow> None
     | c # ds \<Rightarrow> if c = CHR ''#'' \<and> length ds = 6 \<and> list_all isHexDigit ds
                then Some ds else None)"

text \<open>\<^verbatim>\<open>Number.parseInt(digits, 16)\<close> on a string of hexadecimal digits.\<close>

definition hexVal :: "char \<Rightarrow> nat" where
  "hexVal c = (let n = (of_char c :: nat) in
     if 48 \<le> n \<and> n \<le> 57 then n - 48
     else if 97 \<le> n \<and> n \<le> 102 then n - 87
     else n - 55)"

definition parseInt16 :: "string \<Rightarrow> nat" where
  "parseInt16 ds = foldl (\<lambda>acc c. 16 * acc + hexVal c) 0 ds"

text \<open>\<^verbatim>\<open>n.toString(16)\<close> and \<^verbatim>\<open>.padStart(6, '0')\<close>.\<close>

definition hexDigit :: "nat \<Rightarrow> char" where
  "hexDigit d = (if d < 10 then char_of (48 + d) else char_of (87 + d))"

fun toString16 :: "nat \<Rightarrow> string" where
  "toString16 n = (if n < 16 then [hexDigit n] else toString16 (n div 16) @ [hexDigit (n mod 16)])"

declare toString16.simps [simp del]

definition padStart :: "nat \<Rightarrow> char \<Rightarrow> string \<Rightarrow> string" where
  "padStart w c s = replicate (w - length s) c @ s"

subsection \<open>5-6-5 packing\<close>

definition packRgbColor :: "nat \<Rightarrow> nat \<Rightarrow> nat \<Rightarrow> nat" where
  "packRgbColor r g b =
     (let r5 = drop_bit 3 r AND 0x1f;
          g6 = drop_bit 2 g AND 0x3f;
          b5 = drop_bit 3 b AND 0x1f
      in COLOR_RGB_START + push_bit 11 r5 + push_bit 5 g6 + b5)"

definition unpackRgbColor :: "nat \<Rightarrow> nat \<times> nat \<times> nat" where
  "unpackRgbColor packed =
     (let rgb = packed - COLOR_RGB_START;
          r5 = drop_bit 11 rgb AND 0x1f;
          g6 = drop_bit 5 rgb AND 0x3f;
          b5 = rgb AND 0x1f;
          r = push_bit 3 r5 OR drop_bit 2 r5;
          g = push_bit 2 g6 OR drop_bit 4 g6;
          b = push_bit 3 b5 OR drop_bit 2 b5
      in (r, g, b))"

text \<open>The channel extraction shared by \<open>encodeColor\<close> and \<open>colorToAnsi\<close>:
  regex match, \<open>parseInt\<close>, then shifts and masks.\<close>

definition hexChannels :: "string \<Rightarrow> (nat \<times> nat \<times> nat) option" where
  "hexChannels s = (case hexMatch s of
       None \<Rightarrow> None
     | Some ds \<Rightarrow>
         (let rgb = parseInt16 ds;
              r = drop_bit 16 rgb AND 0xff;
              g = drop_bit 8 rgb AND 0xff;
              b = rgb AND 0xff
          in Some (r, g, b)))"

definition encodeColor :: "Color option \<Rightarrow> nat" where
  "encodeColor color =
     (if \<not> truthy color then COLOR_NONE
      else case color of
          None \<Rightarrow> COLOR_NONE
        | Some (Palette n) \<Rightarrow> COLOR_PALETTE_START + (n AND 0xff)
        | Some (Hex s) \<Rightarrow>
            (case hexChannels s of
               None \<Rightarrow> COLOR_NONE
             | Some (r, g, b) \<Rightarrow> packRgbColor r g b))"

definition decodeColor :: "nat \<Rightarrow> Color option" where
  "decodeColor encoded =
     (if encoded = COLOR_NONE then None
      else if encoded \<le> COLOR_PALETTE_START + 255 then Some (Palette (encoded - COLOR_PALETTE_START))
      else (case unpackRgbColor encoded of (r, g, b) \<Rightarrow>
              Some (Hex (CHR ''#'' # padStart 6 (CHR ''0'') (toString16 (push_bit 16 r OR push_bit 8 g OR b))))))"

subsection \<open>Packed cells\<close>

text \<open>A \<open>Cell\<close> is the pair of 32-bit values \<^verbatim>\<open>[cell1, cell2]\<close>.  The character argument
  of \<open>packCell\<close> is a JavaScript string; \<^verbatim>\<open>char ? char.codePointAt(0) || 0x20 : 0x20\<close>
  reads its first code point and replaces the empty string and the code point 0 by a space.\<close>

type_synonym Cell = "32 word \<times> 32 word"

datatype Abort = RangeError | Diverges

definition firstCodePoint :: "jsstring \<Rightarrow> nat" where
  "firstCodePoint char = (case char of [] \<Rightarrow> 0x20 | c # _ \<Rightarrow> if c = 0 then 0x20 else c)"

definition packCellPart :: "jsstring \<Rightarrow> nat \<Rightarrow> 32 word" where
  "packCellPart char attr =
     (let codePoint = firstCodePoint char
      in push_bit ATTR_SHIFT (word_of_nat attr AND 0xff) OR (word_of_nat codePoint AND CHAR_MASK))"

definition packCell :: "jsstring \<Rightarrow> nat \<Rightarrow> Color option \<Rightarrow> Color option \<Rightarrow> Cell" where
  "packCell char attr fgColor bgColor =
     (let codePoint = firstCodePoint char;
          cell1 = push_bit ATTR_SHIFT (word_of_nat attr AND 0xff) OR (word_of_nat codePoint AND CHAR_MASK);
          fg = encodeColor fgColor;
          bg = encodeColor bgColor;
          cell2 = push_bit 16 (word_of_nat fg) OR word_of_nat bg
      in (cell1, cell2))"

definition emptyCell :: Cell where
  "emptyCell = (packCellPart (str '' '') 0, 0)"

text \<open>\<^verbatim>\<open>String.fromCodePoint\<close> throws a \<^verbatim>\<open>RangeError\<close> above U+10FFFF, which the
  21-bit character field can hold.\<close>

definition unpackChar :: "Cell \<Rightarrow> Abort + jsstring" where
  "unpackChar cell =
     (let codePoint = unat (fst cell AND CHAR_MASK)
      in if codePoint > 0x10ffff then Inl RangeError else Inr [codePoint])"

definition unpackAttr :: "Cell \<Rightarrow> nat" where
  "unpackAttr cell = unat (drop_bit ATTR_SHIFT (fst cell) AND 0xff)"

definition unpackFgColor :: "Cell \<Rightarrow> Color option" where
  "unpackFgColor cell = decodeColor (unat (drop_bit 16 (snd cell) AND 0xffff))"

definition unpackBgColor :: "Cell \<Rightarrow> Color option" where
  "unpackBgColor cell = decodeColor (unat (snd cell AND 0xffff))"

definition cellEquals :: "Cell \<Rightarrow> Cell \<Rightarrow> bool" where
  "cellEquals a b = (fst a = fst b \<and> snd a = snd b)"

section \<open>ANSI emitter (src/ansi.ts)\<close>

definition ESC :: jsstring where
  "ESC = str [CHR 0x1b, CHR ''['']"

definition ESC_RESET :: jsstring where
  "ESC_RESET = str [CHR 0x1b, CHR ''['', CHR ''0'', CHR ''m'']"

text \<open>A number inside a template literal: its decimal digits.\<close>

fun showNat :: "nat \<Rightarrow> string" where
  "showNat n = (if n < 10 then [char_of (48 + n)] else showNat (n div 10) @ [char_of (48 + n mod 10)])"

declare showNat.simps [simp del]

fun joinWith :: "jsstring \<Rightarrow> jsstring list \<Rightarrow> jsstring" where
  "joinWith sep [] = []"
| "joinWith sep [x] = x"
| "joinWith sep (x # y # ys) = x @ sep @ joinWith sep (y # ys)"

text \<open>\<^verbatim>\<open>s.slice(2, -1)\<close>: drop the two characters of \<open>ESC\<close> and the final \<open>m\<close>.\<close>

definition slice2m1 :: "jsstring \<Rightarrow> jsstring" where
  "slice2m1 s = drop 2 (butlast s)"

definition attrParts :: "nat \<Rightarrow> jsstring list" where
  "attrParts i =
     [str ''0'']
     @ (if i AND 0x01 \<noteq> 0 then [str ''1''] else [])
     @ (if i AND 0x02 \<noteq> 0 then [str ''2''] else [])
     @ (if i AND 0x04 \<noteq> 0 then [str ''3''] else [])
     @ (if i AND 0x08 \<noteq> 0 then [str ''4''] else [])
     @ (if i AND 0x10 \<noteq> 0 then [str ''7''] else [])
     @ (if i AND 0x20 \<noteq> 0 then [str ''9''] else [])"

text \<open>The table has the 256 entries 0..255; an index outside reads \<open>undefined\<close>.\<close>

definition ATTR_LUT :: "nat \<Rightarrow> jsstring option" where
  "ATTR_LUT i = (if i < 256 then Some (ESC @ joinWith (str '';'') (attrParts i) @ str ''m'') else None)"

definition moveTo :: "nat \<Rightarrow> nat \<Rightarrow> jsstring" where
  "moveTo row col = ESC @ str (showNat row) @ str '';'' @ str (showNat col) @ str ''H''"

definition colorToAnsi :: "Color \<Rightarrow> bool \<Rightarrow> jsstring" where
  "colorToAnsi color isBg =
     (case color of
        Palette n \<Rightarrow> ESC @ str (if isBg then ''48'' else ''38'') @ str '';5;'' @ str (showNat n) @ str ''m''
      | Hex s \<Rightarrow>
          (case hexChannels s of
             None \<Rightarrow> []
           | Some (r, g, b) \<Rightarrow>
               ESC @ str (if isBg then ''48'' else ''38'') @ str '';2;'' @ str (showNat r) @ str '';''
                 @ str (showNat g) @ str '';'' @ str (showNat b) @ str ''m''))"

record Attributes =
  bold :: bool
  italic :: bool
  dim :: bool
  underline :: bool
  reverse :: bool
  strikethrough :: bool
  fg :: "Color option"
  bg :: "Color option"

definition noAttributes :: Attributes where
  "noAttributes = \<lparr>bold = False, italic = False, dim = False, underline = False, reverse = False,
     strikethrough = False, fg = None, bg = None\<rparr>"

definition attributesToByte :: "Attributes \<Rightarrow> nat" where
  "attributesToByte attrs =
     (let byte = 0;
          byte = (if bold attrs then byte OR 0x01 else byte);
          byte = (if dim attrs then byte OR 0x02 else byte);
          byte = (if italic attrs then byte OR 0x04 else byte);
          byte = (if underline attrs then byte OR 0x08 else byte);
          byte = (if reverse attrs then byte OR 0x10 else byte);
          byte = (if strikethrough attrs then byte OR 0x20 else byte)
      in byte)"

text \<open>The colour codes a sequence builder appends for one colour: nothing for a falsy
  colour, nothing when \<open>colorToAnsi\<close> returns the empty string.\<close>

definition colorParts :: "Color option \<Rightarrow> bool \<Rightarrow> jsstring list" where
  "colorParts c isBg =
     (if truthy c then
        (case c of
           None \<Rightarrow> []
         | Some color \<Rightarrow> (let sq = colorToAnsi color isBg in if sq \<noteq> [] then [slice2m1 sq] else []))
      else [])"

definition buildAnsiParts :: "Attributes \<Rightarrow> jsstring list" where
  "buildAnsiParts attrs =
     (let attrByte = attributesToByte attrs
      in (if attrByte > 0
          then [case ATTR_LUT attrByte of Some l \<Rightarrow> slice2m1 l | None \<Rightarrow> []]
          else [str ''0''])
         @ colorParts (fg attrs) False
         @ colorParts (bg attrs) True)"

definition buildAnsiSequence :: "Attributes \<Rightarrow> jsstring" where
  "buildAnsiSequence attrs =
     (let parts = buildAnsiParts attrs
      in if length parts > 0 then ESC @ joinWith (str '';'') parts @ str ''m'' else [])"

section \<open>Diff renderer (src/diff.ts)\<close>

text \<open>
  \<open>getCachedColorSequence\<close> keeps a module-level \<^verbatim>\<open>Map\<close> keyed by
  \<^verbatim>\<open>`${fg || ''}_${bg || ''}_${needsBgReset}`\<close>.  The engine calls it with colours read back
  by \<open>decodeColor\<close> only (a palette number or \<^verbatim>\<open>#\<close> and six digits), and for those the
  sequence built below depends on the key alone, so a cache hit returns what a miss
  builds.  The model is the miss path.
\<close>

definition colorSequenceParts :: "Color option \<Rightarrow> Color option \<Rightarrow> bool \<Rightarrow> jsstring list" where
  "colorSequenceParts fgc bgc needsBgReset =
     (if needsBgReset \<and> \<not> truthy bgc then [str ''49''] else [])
     @ colorParts fgc False
     @ colorParts bgc True"

definition getCachedColorSequence :: "Color option \<Rightarrow> Color option \<Rightarrow> bool \<Rightarrow> jsstring" where
  "getCachedColorSequence fgc bgc needsBgReset =
     (let parts = colorSequenceParts fgc bgc needsBgReset
      in if length parts > 0 then ESC @ joinWith (str '';'') parts @ str ''m'' else [])"

record AnsiState =
  attr :: nat
  fgS :: "Color option"
  bgS :: "Color option"

record DiffEngine =
  rows :: nat
  cols :: nat
  size' :: nat
  prev :: "Cell list"
  curr :: "Cell list"
  dirty :: "8 word list"
  ansiState :: AnsiState
  hasSetBackground :: bool

definition newDiffEngine :: "nat \<Rightarrow> nat \<Rightarrow> DiffEngine" where
  "newDiffEngine r c =
     \<lparr>rows = r, cols = c, size' = r * c,
      prev = replicate (r * c) emptyCell, curr = replicate (r * c) emptyCell,
      dirty = replicate r 0,
      ansiState = \<lparr>attr = 0, fgS = None, bgS = None\<rparr>, hasSetBackground = False\<rparr>"

text \<open>Reading a JavaScript array outside its length gives \<open>undefined\<close>.\<close>

definition cellAt :: "Cell list \<Rightarrow> nat \<Rightarrow> Cell option" where
  "cellAt buf i = (if i < length buf then Some (buf ! i) else None)"

definition markDirty :: "DiffEngine \<Rightarrow> int \<Rightarrow> DiffEngine" where
  "markDirty s row =
     (if row \<ge> 0 \<and> row < int (rows s) then s\<lparr>dirty := (dirty s)[nat row := 1]\<rparr> else s)"

definition markAllDirty :: "DiffEngine \<Rightarrow> DiffEngine" where
  "markAllDirty s = s\<lparr>dirty := map (\<lambda>_. 1) (dirty s)\<rparr>"

text \<open>Both buffers are allocated with \<open>size\<close> slots by the constructor and by \<open>resize\<close>,
  and every index written below passed the bounds check on \<open>row\<close> and \<open>col\<close>, so the
  writes never extend an array (\<open>engine_ok\<close> states the lengths).\<close>

definition setCell :: "DiffEngine \<Rightarrow> int \<Rightarrow> int \<Rightarrow> Cell \<Rightarrow> DiffEngine" where
  "setCell s row col cell =
     (if row < 0 \<or> row \<ge> int (rows s) \<or> col < 0 \<or> col \<ge> int (cols s) then s
      else
        (let index = nat row * cols s + nat col
         in if \<not> (case cellAt (curr s) index of None \<Rightarrow> False | Some c \<Rightarrow> cellEquals c cell)
            then markDirty (s\<lparr>curr := (curr s)[index := cell]\<rparr>) row
            else s))"

definition setCellWithAttrs :: "DiffEngine \<Rightarrow> int \<Rightarrow> int \<Rightarrow> jsstring \<Rightarrow> Attributes option \<Rightarrow> DiffEngine" where
  "setCellWithAttrs s row col char attrs =
     (if row < 0 \<or> row \<ge> int (rows s) \<or> col < 0 \<or> col \<ge> int (cols s) then s
      else
        (let index = nat row * cols s + nat col;
             attrByte = (case attrs of Some a \<Rightarrow> attributesToByte a | None \<Rightarrow> 0);
             newCell = packCell char attrByte (case attrs of Some a \<Rightarrow> fg a | None \<Rightarrow> None)
                         (case attrs of Some a \<Rightarrow> bg a | None \<Rightarrow> None)
         in if \<not> (case cellAt (curr s) index of None \<Rightarrow> False | Some c \<Rightarrow> cellEquals c newCell)
            then markDirty (s\<lparr>curr := (curr s)[index := newCell]\<rparr>) row
            else s))"

definition clear :: "DiffEngine \<Rightarrow> DiffEngine" where
  "clear s = markAllDirty (s\<lparr>curr := replicate (size' s) emptyCell @ drop (size' s) (curr s)\<rparr>)"

definition resize :: "DiffEngine \<Rightarrow> nat \<Rightarrow> nat \<Rightarrow> DiffEngine" where
  "resize s r c =
     (if r = rows s \<and> c = cols s then s
      else
        (let newSize = r * c
         in s\<lparr>rows := r, cols := c, size' := newSize,
              prev := replicate newSize emptyCell, curr := replicate newSize emptyCell,
              dirty := replicate r 1\<rparr>))"

definition isDirty :: "DiffEngine \<Rightarrow> nat \<Rightarrow> bool" where
  "isDirty s row = (row < length (dirty s) \<and> dirty s ! row = 1)"

definition generateStateChange :: "DiffEngine \<Rightarrow> nat \<Rightarrow> Color option \<Rightarrow> Color option \<Rightarrow> jsstring \<times> DiffEngine" where
  "generateStateChange s newAttr newFg newBg =
     (let attrChanged = (attr (ansiState s) \<noteq> newAttr);
          fgChanged = (fgS (ansiState s) \<noteq> newFg);
          bgChanged = (bgS (ansiState s) \<noteq> newBg);
          needsBgReset = ((bgS (ansiState s) \<noteq> None \<and> newBg = None)
                          \<or> (hasSetBackground s \<and> newBg = None \<and> bgS (ansiState s) = None))
      in if \<not> (attrChanged \<or> fgChanged \<or> bgChanged \<or> needsBgReset) then ([], s)
         else
           (let output =
                  (if attrChanged \<and> \<not> fgChanged \<and> \<not> bgChanged
                   then (case ATTR_LUT newAttr of Some l \<Rightarrow> l | None \<Rightarrow> [])
                   else if \<not> attrChanged \<and> (fgChanged \<or> bgChanged \<or> needsBgReset)
                   then getCachedColorSequence
                          (if fgChanged then newFg else fgS (ansiState s))
                          (if bgChanged \<or> needsBgReset then newBg else bgS (ansiState s))
                          needsBgReset
                   else buildAnsiSequence
                          \<lparr>bold = (newAttr AND 0x01 \<noteq> 0), italic = (newAttr AND 0x04 \<noteq> 0),
                           dim = (newAttr AND 0x02 \<noteq> 0), underline = (newAttr AND 0x08 \<noteq> 0),
                           reverse = (newAttr AND 0x10 \<noteq> 0), strikethrough = (newAttr AND 0x20 \<noteq> 0),
                           fg = (if truthy newFg then newFg else None),
                           bg = (if truthy newBg then newBg else None)\<rparr>);
                s1 = s\<lparr>ansiState := \<lparr>attr = newAttr, fgS = newFg, bgS = newBg\<rparr>\<rparr>;
                s2 = (if newBg \<noteq> None then s1\<lparr>hasSetBackground := True\<rparr> else s1)
            in (output, s2)))"

function findRunEnd_loop ::
  "Cell list \<Rightarrow> nat \<Rightarrow> nat \<Rightarrow> nat \<Rightarrow> nat \<Rightarrow> Color option \<Rightarrow> Color option \<Rightarrow> nat" where
  "findRunEnd_loop cur ncols offset runEnd runAttr runFg runBg =
     (if runEnd < ncols then
        (case cellAt cur (offset + runEnd) of
           None \<Rightarrow> runEnd
         | Some currCell \<Rightarrow>
             if unpackAttr currCell \<noteq> runAttr \<or> unpackFgColor currCell \<noteq> runFg
                \<or> unpackBgColor currCell \<noteq> runBg
             then runEnd
             else findRunEnd_loop cur ncols offset (runEnd + 1) runAttr runFg runBg)
      else runEnd)"
  by pat_completeness auto
termination
  by (relation "measure (\<lambda>(cur, ncols, offset, runEnd, runAttr, runFg, runBg). ncols - runEnd)") auto

declare findRunEnd_loop.simps [simp del]

definition findRunEnd :: "DiffEngine \<Rightarrow> nat \<Rightarrow> nat \<Rightarrow> nat \<Rightarrow> Color option \<Rightarrow> Color option \<Rightarrow> nat" where
  "findRunEnd s row startCol runAttr runFg runBg =
     findRunEnd_loop (curr s) (cols s) (row * cols s) startCol runAttr runFg runBg"

definition runHasChanges :: "DiffEngine \<Rightarrow> nat \<Rightarrow> nat \<Rightarrow> nat \<Rightarrow> bool" where
  "runHasChanges s row startCol endCol =
     list_ex (\<lambda>col.
        (let idx = row * cols s + col
         in \<not> (case (cellAt (prev s) idx, cellAt (curr s) idx) of
                  (Some prevCell, Some currCell) \<Rightarrow> cellEquals prevCell currCell
                | _ \<Rightarrow> False)))
       [startCol..<endCol]"

text \<open>The character loop of \<open>outputRun\<close>: the first \<^verbatim>\<open>RangeError\<close> aborts it.\<close>

fun runChars :: "Cell list \<Rightarrow> nat \<Rightarrow> nat list \<Rightarrow> Abort + jsstring" where
  "runChars cur offset [] = Inr []"
| "runChars cur offset (i # is) =
     (case cellAt cur (offset + i) of
        None \<Rightarrow> runChars cur offset is
      | Some cell \<Rightarrow>
          (case unpackChar cell of
             Inl e \<Rightarrow> Inl e
           | Inr ch \<Rightarrow> (case runChars cur offset is of Inl e \<Rightarrow> Inl e | Inr rest \<Rightarrow> Inr (ch @ rest))))"

fun copyRun :: "Cell list \<Rightarrow> nat \<Rightarrow> nat list \<Rightarrow> Cell list \<Rightarrow> Cell list" where
  "copyRun cur offset [] prv = prv"
| "copyRun cur offset (i # is) prv =
     (case cellAt cur (offset + i) of
        None \<Rightarrow> copyRun cur offset is prv
      | Some currCell \<Rightarrow> copyRun cur offset is (prv[offset + i := currCell]))"

text \<open>\<open>outputRun\<close> returns the text of the run, or the error by which it was left, and
  the engine as the call left it: the tracked ANSI state is updated before the characters
  are read, the front buffer after.\<close>

definition outputRun ::
  "DiffEngine \<Rightarrow> nat \<Rightarrow> nat \<Rightarrow> nat \<Rightarrow> nat \<Rightarrow> Color option \<Rightarrow> Color option \<Rightarrow> (Abort + jsstring) \<times> DiffEngine" where
  "outputRun s row startCol endCol runAttr runFg runBg =
     (let offset = row * cols s;
          (stateChange, s1) = generateStateChange s runAttr runFg runBg
      in case runChars (curr s1) offset [startCol..<endCol] of
           Inl e \<Rightarrow> (Inl e, s1)
         | Inr chars \<Rightarrow>
             (Inr (stateChange @ chars),
              s1\<lparr>prev := copyRun (curr s1) offset [startCol..<endCol] (prev s1)\<rparr>))"

text \<open>
  The column loop of \<open>computeDiff\<close>.  \<^verbatim>\<open>if (!startCell) continue;\<close> re-enters the loop
  with \<open>col\<close> unchanged, so a missing cell makes the loop spin forever: \<open>Diverges\<close>.
  The loop variables \<open>output\<close>, \<open>lastRow\<close> and \<open>lastCol\<close> are threaded through.
\<close>

function computeDiff_cols ::
  "DiffEngine \<Rightarrow> nat \<Rightarrow> nat \<Rightarrow> jsstring \<Rightarrow> int \<Rightarrow> int \<Rightarrow> (Abort + jsstring \<times> int \<times> int) \<times> DiffEngine" where
  "computeDiff_cols s row col output lastRow lastCol =
     (if col < cols s then
        (case cellAt (curr s) (row * cols s + col) of
           None \<Rightarrow> (Inl Diverges, s)
         | Some startCell \<Rightarrow>
             (let runAttr = unpackAttr startCell;
                  runFg = unpackFgColor startCell;
                  runBg = unpackBgColor startCell;
                  runEnd = findRunEnd s row col runAttr runFg runBg
              in if runHasChanges s row col runEnd then
                   (let moved = (lastRow \<noteq> int row \<or> lastCol \<noteq> int col);
                        output1 = (if moved then output @ moveTo (row + 1) (col + 1) else output);
                        lastRow1 = (if moved then int row else lastRow)
                    in case outputRun s row col runEnd runAttr runFg runBg of
                         (Inl e, s') \<Rightarrow> (Inl e, s')
                       | (Inr out, s') \<Rightarrow>
                           computeDiff_cols s' row runEnd (output1 @ out) lastRow1 (int runEnd))
                 else computeDiff_cols s row runEnd output lastRow lastCol))
      else (Inr (output, lastRow, lastCol), s))"
  by pat_completeness auto
termination
proof -
  have ge: "e \<le> findRunEnd_loop cur n off e a f b" for cur n off e a f b
    by (induction cur n off e a f b rule: findRunEnd_loop.induct)
       (subst findRunEnd_loop.simps, auto split: option.splits)
  have gt: "col < findRunEnd s row col (unpackAttr c) (unpackFgColor c) (unpackBgColor c)"
    if "col < cols s" "cellAt (curr s) (row * cols s + col) = Some c" for s row col c
  proof -
    have "findRunEnd s row col (unpackAttr c) (unpackFgColor c) (unpackBgColor c)
          = findRunEnd_loop (curr s) (cols s) (row * cols s) (col + 1) (unpackAttr c) (unpackFgColor c) (unpackBgColor c)"
      unfolding findRunEnd_def using that by (subst findRunEnd_loop.simps) simp
    then show ?thesis
      using ge [of "col + 1" "curr s" "cols s" "row * cols s" "unpackAttr c" "unpackFgColor c" "unpackBgColor c"]
      by simp
  qed
  have keep: "cols (snd (outputRun s row a b x y z)) = cols s" for s row a b x y z
    by (simp add: outputRun_def generateStateChange_def Let_def split: sum.splits prod.splits)
  have keep2: "cols y = cols s" if "(r, y) = outputRun s row a b x y' z" for s row a b x y' z r y
    using keep [of s row a b x y' z] that [symmetric] by simp
  show ?thesis
    apply (relation "measure (\<lambda>(s, row, col, outp, lastRow, lastCol). cols s - col)")
      apply simp
     apply (simp add: keep2 diff_less_mono2 gt)
    apply (simp add: diff_less_mono2 gt)
    done
qed

declare computeDiff_cols.simps [simp del]

fun computeDiff_rows ::
  "nat list \<Rightarrow> DiffEngine \<Rightarrow> jsstring \<Rightarrow> int \<Rightarrow> int \<Rightarrow> (Abort + jsstring \<times> int \<times> int) \<times> DiffEngine" where
  "computeDiff_rows [] s output lastRow lastCol = (Inr (output, lastRow, lastCol), s)"
| "computeDiff_rows (row # rest) s output lastRow lastCol =
     (if \<not> isDirty s row then computeDiff_rows rest s output lastRow lastCol
      else case computeDiff_cols s row 0 output lastRow lastCol of
             (Inl e, s') \<Rightarrow> (Inl e, s')
           | (Inr (output', lastRow', lastCol'), s') \<Rightarrow>
               computeDiff_rows rest (s'\<lparr>dirty := (dirty s')[row := 0]\<rparr>) output' lastRow' lastCol')"

definition computeDiff :: "DiffEngine \<Rightarrow> (Abort + jsstring) \<times> DiffEngine" where
  "computeDiff s0 =
     (let s = s0\<lparr>ansiState := \<lparr>attr = 0, fgS = None, bgS = None\<rparr>, hasSetBackground := False\<rparr>
      in case computeDiff_rows [0..<rows s] s [] (- 1) (- 1) of
           (Inl e, s') \<Rightarrow> (Inl e, s')
         | (Inr (output, lastRow, lastCol), s') \<Rightarrow>
             if output \<noteq> [] \<and> (attr (ansiState s') \<noteq> 0 \<or> truthy (fgS (ansiState s'))
                                \<or> truthy (bgS (ansiState s')))
             then (Inr (output @ ESC_RESET), s')
             else (Inr output, s'))"

section \<open>Input decoder (class \<open>InputDecoder\<close>, protocols.ts, terminal-quirks.ts)\<close>

text \<open>
  Input bytes are \<open>8 word\<close>.  Strings built with \<^verbatim>\<open>String.fromCharCode(byte)\<close> are
  \<open>string\<close>s; a key's \<^verbatim>\<open>{char}\<close> can also come from \<^verbatim>\<open>String.fromCodePoint\<close> and is a
  \<open>jsstring\<close>.  The \<open>raw\<close> field of an event is kept as the slice of the byte buffer,
  before \<^verbatim>\<open>TextDecoder\<close>; the content of a clipboard event is kept as the base64 text,
  before \<^verbatim>\<open>Buffer.from(..., 'base64')\<close>.  The terminal type that
  \<open>getTerminalType\<close> of terminal-quirks.ts caches from the environment is the field
  \<open>termType\<close> of the decoder.
\<close>

datatype TerminalType = Kitty | Ghostty | ITerm | Tmux | SSH | Unknown

datatype ParserState =
  Idle | Escape | CSI | CSI_Param | CSI_Intermediate | SS3 | OSC | DCS | Paste

datatype KeyCode = Named string | Char jsstring

datatype KeyEventKind = Press | Repeat | Release

record KeyModifiers =
  ctrl :: bool
  alt :: bool
  shift :: bool
  meta :: bool

definition noMods :: KeyModifiers where
  "noMods = \<lparr>ctrl = False, alt = False, shift = False, meta = False\<rparr>"

datatype MouseButton = Btn nat | WheelUp | WheelDown | WheelLeft | WheelRight

datatype MouseEventKind = Down | Up | Drag | Move | Scroll

datatype InputEvent =
    KeyEvent (code: KeyCode) (modifiers: KeyModifiers) (kind: "KeyEventKind option")
      (repeat: bool) (raw: "8 word list")
  | MouseEvent MouseEventKind "MouseButton option" int int KeyModifiers "8 word list"
  | PasteEvent string
  | ClipboardEvent string

definition MAX_CSI_PARAM :: nat where "MAX_CSI_PARAM = 0xffffff"
definition MAX_CSI_PARAMS :: nat where "MAX_CSI_PARAMS = 16"
definition SEQUENCE_BUFFER_SIZE :: nat where "SEQUENCE_BUFFER_SIZE = 256"

definition CTRL_CHARS :: "nat \<Rightarrow> KeyCode option" where
  "CTRL_CHARS b =
     (if b = 0 then Some (Char [0])
      else if b = 9 then Some (Named ''Tab'')
      else if b = 13 then Some (Named ''Enter'')
      else if 1 \<le> b \<and> b \<le> 26 then Some (Char [96 + b])
      else if b = 27 then Some (Named ''Escape'')
      else if b = 127 then Some (Named ''Backspace'')
      else None)"

definition CSI_KEY_MAP :: "(string \<times> KeyCode) list" where
  "CSI_KEY_MAP =
     [(''A'', Named ''Up''), (''B'', Named ''Down''), (''C'', Named ''Right''), (''D'', Named ''Left''),
      (''H'', Named ''Home''), (''F'', Named ''End''),
      (''1~'', Named ''Home''), (''2~'', Named ''Insert''), (''3~'', Named ''Delete''),
      (''4~'', Named ''End''), (''5~'', Named ''PageUp''), (''6~'', Named ''PageDown''),
      (''7~'', Named ''Home''), (''8~'', Named ''End''),
      (''11~'', Named ''F1''), (''12~'', Named ''F2''), (''13~'', Named ''F3''), (''14~'', Named ''F4''),
      (''15~'', Named ''F5''), (''17~'', Named ''F6''), (''18~'', Named ''F7''), (''19~'', Named ''F8''),
      (''20~'', Named ''F9''), (''21~'', Named ''F10''), (''23~'', Named ''F11''), (''24~'', Named ''F12''),
      (''1;2P'', Named ''F1''), (''1;2Q'', Named ''F2''), (''1;2R'', Named ''F3''), (''1;2S'', Named ''F4'')]"

definition SS3_KEY_MAP :: "(string \<times> KeyCode) list" where
  "SS3_KEY_MAP =
     [(''P'', Named ''F1''), (''Q'', Named ''F2''), (''R'', Named ''F3''), (''S'', Named ''F4''),
      (''A'', Named ''Up''), (''B'', Named ''Down''), (''C'', Named ''Right''), (''D'', Named ''Left''),
      (''H'', Named ''Home''), (''F'', Named ''End'')]"

definition SGR_BUTTON_MAP :: "int \<Rightarrow> MouseButton option" where
  "SGR_BUTTON_MAP c =
     (if c = 0 then Some (Btn 1) else if c = 1 then Some (Btn 3) else if c = 2 then Some (Btn 2)
      else if c = 64 then Some WheelUp else if c = 65 then Some WheelDown
      else if c = 66 then Some WheelLeft else if c = 67 then Some WheelRight else None)"

subsection \<open>terminal-quirks.ts\<close>

definition TERMINAL_KEY_REMAP :: "TerminalType \<Rightarrow> nat \<Rightarrow> string option" where
  "TERMINAL_KEY_REMAP t u =
     (case t of
        ITerm \<Rightarrow>
          (if u = 57442 then Some ''Control'' else if u = 57443 then Some ''Alt''
           else if u = 57444 then Some ''Meta'' else if u = 57447 then Some ''Shift''
           else if u = 57449 then Some ''Alt'' else if u = 57450 then Some ''Meta'' else None)
      | Unknown \<Rightarrow>
          (if u = 57442 then Some ''Control'' else if u = 57443 then Some ''Alt''
           else if u = 57444 then Some ''Meta'' else None)
      | _ \<Rightarrow> None)"

definition shouldApplyQuirks :: "TerminalType \<Rightarrow> bool" where
  "shouldApplyQuirks t = (\<not> (t = Kitty \<or> t = Ghostty))"

definition remapKeyCode :: "TerminalType \<Rightarrow> nat \<Rightarrow> string \<Rightarrow> string" where
  "remapKeyCode t unicode originalKey =
     (if \<not> shouldApplyQuirks t then originalKey
      else case TERMINAL_KEY_REMAP t unicode of Some k \<Rightarrow> k | None \<Rightarrow> originalKey)"

definition remapControlChar :: "TerminalType \<Rightarrow> 8 word \<Rightarrow> (KeyCode \<times> KeyModifiers) option" where
  "remapControlChar t byte =
     (if t = ITerm \<and> byte = 21 then Some (Named ''Backspace'', noMods\<lparr>meta := True\<rparr>) else None)"

definition remapAltEscapeChar :: "TerminalType \<Rightarrow> char \<Rightarrow> string option" where
  "remapAltEscapeChar t c =
     (if shouldApplyQuirks t \<and> c = CHR ''b'' then Some ''Left''
      else if shouldApplyQuirks t \<and> c = CHR ''f'' then Some ''Right''
      else None)"

subsection \<open>The decoder state\<close>

record Decoder =
  state :: ParserState
  buffer :: "8 word list"
  bufferPos :: nat
  params :: "nat list"
  intermediates :: string
  final :: string
  events :: "InputEvent list"
  lastMouseButton :: "MouseButton option"
  pasteBuffer :: string
  inPaste :: bool
  oscBuffer :: string
  oscParam :: string
  kittyEnabled :: bool
  quirksEnabled :: bool
  physicalModifierState :: KeyModifiers
  termType :: TerminalType

definition reset :: "Decoder \<Rightarrow> Decoder" where
  "reset d = d\<lparr>state := Idle, bufferPos := 0, params := [], intermediates := [], final := [],
               oscBuffer := [], oscParam := []\<rparr>"

text \<open>The constructor, with the options \<open>kittyKeyboard\<close> and \<open>quirks\<close> resolved to
  their defaults \<open>false\<close> and \<open>true\<close> by the caller.\<close>

definition newDecoder :: "bool \<Rightarrow> bool \<Rightarrow> TerminalType \<Rightarrow> Decoder" where
  "newDecoder kitty quirks t =
     reset \<lparr>state = Idle, buffer = replicate SEQUENCE_BUFFER_SIZE 0, bufferPos = 0, params = [],
            intermediates = [], final = [], events = [], lastMouseButton = None,
            pasteBuffer = [], inPaste = False, oscBuffer = [], oscParam = [],
            kittyEnabled = kitty, quirksEnabled = quirks,
            physicalModifierState = noMods, termType = t\<rparr>"

definition getRawSequence :: "Decoder \<Rightarrow> 8 word list" where
  "getRawSequence d = take (bufferPos d) (buffer d)"

definition emitKey :: "Decoder \<Rightarrow> KeyCode \<Rightarrow> bool \<Rightarrow> KeyModifiers \<Rightarrow> KeyEventKind option \<Rightarrow> Decoder" where
  "emitKey d c isCtrl additionalMods k =
     (let mods = \<lparr>ctrl = (isCtrl \<or> ctrl additionalMods), alt = alt additionalMods,
                  shift = shift additionalMods, meta = meta additionalMods\<rparr>;
          event = KeyEvent c mods k (k = Some Repeat) (getRawSequence d)
      in reset (d\<lparr>events := events d @ [event]\<rparr>))"

definition byteChar :: "8 word \<Rightarrow> char" where
  "byteChar b = char_of (unat b)"

subsection \<open>Modifier extraction\<close>

text \<open>\<open>modParam\<close> is \<open>params[1] - 1\<close>, which is \<open>-1\<close> for a parameter 0; the bit tests
  are those of JavaScript on the two's complement value.\<close>

definition modsOfBits :: "int \<Rightarrow> KeyModifiers" where
  "modsOfBits m = \<lparr>ctrl = (m AND 4 \<noteq> 0), alt = (m AND 2 \<noteq> 0), shift = (m AND 1 \<noteq> 0),
                    meta = (m AND 8 \<noteq> 0)\<rparr>"

definition extractModifiers :: "Decoder \<Rightarrow> KeyModifiers" where
  "extractModifiers d =
     (if length (params d) < 2 then noMods else modsOfBits (int (params d ! 1) - 1))"

definition extractModifiersFromParam :: "nat \<Rightarrow> KeyModifiers" where
  "extractModifiersFromParam param =
     (if param = 0 \<or> param = 1 then noMods else modsOfBits (int param - 1))"

definition extractKittyModifiers :: "nat \<Rightarrow> KeyModifiers" where
  "extractKittyModifiers m =
     (if m = 0 \<or> m = 1 then noMods else modsOfBits (int m - 1))"

definition kindOfEventType :: "nat \<Rightarrow> KeyEventKind option" where
  "kindOfEventType e =
     (if e = 1 then Some Press else if e = 2 then Some Repeat else if e = 3 then Some Release
      else None)"

definition lookupKey :: "(string \<times> KeyCode) list \<Rightarrow> string \<Rightarrow> KeyCode option" where
  "lookupKey m k = map_of m k"

fun joinStrings :: "string \<Rightarrow> string list \<Rightarrow> string" where
  "joinStrings sep [] = []"
| "joinStrings sep [x] = x"
| "joinStrings sep (x # y # ys) = x @ sep @ joinStrings sep (y # ys)"

definition lookupCSIKey :: "Decoder \<Rightarrow> KeyCode option" where
  "lookupCSIKey d =
     (let k = (if length (params d) > 0 then joinStrings '';'' (map showNat (params d)) else [])
              @ intermediates d @ final d
      in case lookupKey CSI_KEY_MAP k of
           Some key \<Rightarrow> Some key
         | None \<Rightarrow> lookupKey CSI_KEY_MAP (final d))"

subsection \<open>Mouse\<close>

definition emitMouse :: "Decoder \<Rightarrow> int \<Rightarrow> int \<Rightarrow> int \<Rightarrow> bool \<Rightarrow> Decoder" where
  "emitMouse d button x y sgr =
     (let mods = \<lparr>ctrl = (button AND 0x10 \<noteq> 0), alt = (button AND 0x08 \<noteq> 0),
                  shift = (button AND 0x04 \<noteq> 0), meta = (button AND 0x20 \<noteq> 0)\<rparr>;
          buttonCode = (if sgr then (if button \<ge> 64 \<and> button \<le> 67 then button else button AND 0x03)
                        else button AND 0x43);
          isRelease = (sgr \<and> final d = ''m'');
          isMotion = (button AND 0x20 \<noteq> 0);
          motionKind = (if lastMouseButton d \<noteq> None then Drag else Move);
          (k, mapped, lastB) =
            (case SGR_BUTTON_MAP buttonCode of
               Some mb \<Rightarrow>
                 (if mb = WheelUp \<or> mb = WheelDown \<or> mb = WheelLeft \<or> mb = WheelRight
                  then (Scroll, Some mb, lastMouseButton d)
                  else if isRelease then (Up, Some mb, None)
                  else if isMotion then (motionKind, Some mb, lastMouseButton d)
                  else (Down, Some mb, Some mb))
             | None \<Rightarrow>
                 (if isMotion then (motionKind, lastMouseButton d, lastMouseButton d)
                  else (Down, None, lastMouseButton d)));
          event = MouseEvent k mapped x y mods (getRawSequence d)
      in d\<lparr>lastMouseButton := lastB, events := events d @ [event]\<rparr>)"

definition handleX10Mouse :: "Decoder \<Rightarrow> Decoder" where
  "handleX10Mouse d =
     (if bufferPos d < 6 then d
      else emitMouse d (uint (buffer d ! 3) - 32) (uint (buffer d ! 4) - 32) (uint (buffer d ! 5) - 32) False)"

definition handleSGRMouseComplete :: "Decoder \<Rightarrow> Decoder" where
  "handleSGRMouseComplete d =
     (if length (params d) < 3 then d
      else
        (let button = int (params d ! 0);
             x = (if params d ! 1 = 0 then 1 else int (params d ! 1));
             y = (if params d ! 2 = 0 then 1 else int (params d ! 2))
         in emitMouse d button x y True))"

subsection \<open>Kitty keyboard\<close>

definition mapUnicodeToKeyCode :: "nat \<Rightarrow> string option" where
  "mapUnicodeToKeyCode u =
     (if u = 13 then Some ''Enter'' else if u = 27 then Some ''Escape''
      else if u = 9 then Some ''Tab'' else if u = 127 then Some ''Backspace''
      else if u = 0x1b5b41 then Some ''Up'' else if u = 0x1b5b42 then Some ''Down''
      else if u = 0x1b5b43 then Some ''Right'' else if u = 0x1b5b44 then Some ''Left''
      else if u = 0x1b4f50 then Some ''F1'' else if u = 0x1b4f51 then Some ''F2''
      else if u = 0x1b4f52 then Some ''F3'' else if u = 0x1b4f53 then Some ''F4''
      else if u = 57441 then Some ''Shift'' else if u = 57442 then Some ''Shift''
      else if u = 57443 then Some ''Control'' else if u = 57444 then Some ''Control''
      else if u = 57445 then Some ''Alt'' else if u = 57446 then Some ''Alt''
      else if u = 57447 then Some ''Meta'' else if u = 57448 then Some ''Meta''
      else if u = 57449 then Some ''CapsLock'' else if u = 57450 then Some ''NumLock''
      else if u = 57451 then Some ''ScrollLock''
      else if u = 0x1b5b33 then Some ''Delete'' else if u = 2221 then Some ''Delete''
      else if u = 2 then Some ''Insert'' else if u = 5 then Some ''PageUp''
      else if u = 6 then Some ''PageDown''
      else if u = 1 then Some ''Home'' else if u = 4 then Some ''End''
      else None)"

text \<open>The workaround applied to every Kitty event when quirks are enabled: a modifier the
  tracked physical state says is released is cleared.\<close>

definition adjustModifiers :: "Decoder \<Rightarrow> KeyModifiers \<Rightarrow> KeyModifiers" where
  "adjustModifiers d km =
     (if quirksEnabled d then
        \<lparr>ctrl = (if \<not> ctrl (physicalModifierState d) \<and> ctrl km then False else ctrl km),
         alt = (if \<not> alt (physicalModifierState d) \<and> alt km then False else alt km),
         shift = (if \<not> shift (physicalModifierState d) \<and> shift km then False else shift km),
         meta = (if \<not> meta (physicalModifierState d) \<and> meta km then False else meta km)\<rparr>
      else km)"

definition setPhysical :: "string \<Rightarrow> bool \<Rightarrow> KeyModifiers \<Rightarrow> KeyModifiers" where
  "setPhysical k v p =
     (if k = ''Control'' then p\<lparr>ctrl := v\<rparr>
      else if k = ''Shift'' then p\<lparr>shift := v\<rparr>
      else if k = ''Alt'' then p\<lparr>alt := v\<rparr>
      else p\<lparr>meta := v\<rparr>)"

definition clearSelf :: "string \<Rightarrow> KeyModifiers \<Rightarrow> KeyModifiers" where
  "clearSelf k m =
     (if k = ''Shift'' then m\<lparr>shift := False\<rparr>
      else if k = ''Control'' then m\<lparr>ctrl := False\<rparr>
      else if k = ''Alt'' then m\<lparr>alt := False\<rparr>
      else if k = ''Meta'' then m\<lparr>meta := False\<rparr>
      else m)"

text \<open>\<open>handleKittyKeyboard\<close> is the only place of the decoder that can throw:
  \<^verbatim>\<open>String.fromCodePoint(unicode)\<close> raises a \<^verbatim>\<open>RangeError\<close> above U+10FFFF.\<close>

definition handleKittyKeyboard :: "Decoder \<Rightarrow> Abort + Decoder" where
  "handleKittyKeyboard d =
     (if length (params d) = 0 then Inr d
      else
        (let unicode = params d ! 0;
             mods = (if length (params d) = 1 then 1 else params d ! 1);
             eventType = (if length (params d) \<ge> 3 then params d ! 2 else 1);
             k = (if eventType = 2 then Repeat else if eventType = 3 then Release else Press)
         in if unicode \<noteq> 0 then
              (let kittyModifiers = extractKittyModifiers mods
               in if unicode = 27 \<and> k = Release \<and> (ctrl kittyModifiers \<or> meta kittyModifiers)
                  then Inr (emitKey d (Named ''Escape'') False kittyModifiers None)
                  else
                    (case mapUnicodeToKeyCode unicode of
                       Some keyCode \<Rightarrow>
                         (let actualKeyCode =
                                (if quirksEnabled d then remapKeyCode (termType d) unicode keyCode
                                 else keyCode)
                          in if actualKeyCode = ''Shift'' \<or> actualKeyCode = ''Control''
                                \<or> actualKeyCode = ''Alt'' \<or> actualKeyCode = ''Meta''
                             then
                               (let d1 =
                                      (if k = Release
                                       then d\<lparr>physicalModifierState :=
                                               setPhysical actualKeyCode False (physicalModifierState d)\<rparr>
                                       else if k = Press
                                       then d\<lparr>physicalModifierState :=
                                               setPhysical actualKeyCode True (physicalModifierState d)\<rparr>
                                       else d);
                                    adjusted = clearSelf actualKeyCode (adjustModifiers d1 kittyModifiers)
                                in Inr (emitKey d1 (Named actualKeyCode) False adjusted (Some k)))
                             else Inr (emitKey d (Named keyCode) False
                                         (adjustModifiers d kittyModifiers) (Some k)))
                     | None \<Rightarrow>
                         (if unicode \<ge> 32 then
                            (if unicode > 0x10ffff then Inl RangeError
                             else Inr (emitKey d (Char [unicode]) False
                                         (adjustModifiers d kittyModifiers) (Some k)))
                          else Inr d)))
            else Inr d))"

subsection \<open>CSI dispatch\<close>

definition arrowKeyMap :: "string \<Rightarrow> KeyCode option" where
  "arrowKeyMap f =
     lookupKey [(''A'', Named ''Up''), (''B'', Named ''Down''), (''C'', Named ''Right''),
                (''D'', Named ''Left''), (''H'', Named ''Home''), (''F'', Named ''End'')] f"

definition fnKeyMap :: "string \<Rightarrow> KeyCode option" where
  "fnKeyMap f =
     lookupKey [(''P'', Named ''F1''), (''Q'', Named ''F2''), (''R'', Named ''F3''),
                (''S'', Named ''F4'')] f"

text \<open>The branches of \<open>handleCSISequence\<close> after the paste, Kitty and mouse checks.  A
  result \<open>None\<close> means the branch fell through to the next one.\<close>

definition csiArrowBranch :: "Decoder \<Rightarrow> Decoder option" where
  "csiArrowBranch d =
     (if arrowKeyMap (final d) \<noteq> None \<and> length (params d) \<ge> 2 then
        (let eventType = last (params d);
             modParam = (if params d ! 1 = 0 then 1 else params d ! 1);
             mods = (if modParam > 1 then extractModifiers d else noMods)
         in case arrowKeyMap (final d) of
              Some key \<Rightarrow> Some (emitKey d key False mods (kindOfEventType eventType))
            | None \<Rightarrow> None)
      else None)"

definition csiFnBranch :: "Decoder \<Rightarrow> Decoder option" where
  "csiFnBranch d =
     (if fnKeyMap (final d) \<noteq> None \<and> length (params d) \<ge> 2 then
        (let eventType = last (params d);
             modParam = (if params d ! 1 = 0 then 1 else params d ! 1);
             mods = (if modParam > 1 then extractModifiers d else noMods)
         in case fnKeyMap (final d) of
              Some key \<Rightarrow> Some (emitKey d key False mods (kindOfEventType eventType))
            | None \<Rightarrow> None)
      else None)"

definition csiTildeBranch :: "Decoder \<Rightarrow> Decoder option" where
  "csiTildeBranch d =
     (if final d = ''~'' \<and> length (params d) \<ge> 2 then
        (let lastParam = last (params d);
             secondLastParam = params d ! (length (params d) - 2);
             key = lookupKey CSI_KEY_MAP (showNat (params d ! 0) @ ''~'')
         in if lastParam \<ge> 1 \<and> lastParam \<le> 3 \<and> secondLastParam = 1 \<and> key \<noteq> None then
              (case key of
                 Some k \<Rightarrow> Some (emitKey d k False noMods (kindOfEventType lastParam))
               | None \<Rightarrow> None)
            else
              (case key of
                 Some k \<Rightarrow>
                   (let modParam = params d ! 1;
                        mods = (if modParam > 1 then extractModifiersFromParam modParam else noMods);
                        knd = (if length (params d) = 2
                               then (if kittyEnabled d then Some Press else None)
                               else kindOfEventType (last (params d)))
                    in Some (emitKey d k False mods knd))
               | None \<Rightarrow> None))
      else None)"

definition csiLookupBranch :: "Decoder \<Rightarrow> Decoder" where
  "csiLookupBranch d =
     (let knd = (if kittyEnabled d then Some Press else None)
      in case lookupCSIKey d of
           Some key \<Rightarrow> emitKey d key False (extractModifiers d) knd
         | None \<Rightarrow> emitKey d (Char (str (''Unknown:'' @ final d))) False (extractModifiers d) knd)"

definition handleCSISequence :: "Decoder \<Rightarrow> Abort + Decoder" where
  "handleCSISequence d =
     (if final d = ''~'' \<and> params d \<noteq> [] \<and> params d ! 0 = 200
      then Inr (d\<lparr>state := Paste, inPaste := True, pasteBuffer := [], bufferPos := 0\<rparr>)
      else if final d = ''u'' \<and> intermediates d = [] then handleKittyKeyboard d
      else if intermediates d = ''<'' \<and> (final d = ''M'' \<or> final d = ''m'')
      then Inr (handleSGRMouseComplete d)
      else if final d = ''M'' then Inr (handleX10Mouse d)
      else
        (case csiArrowBranch d of
           Some d' \<Rightarrow> Inr d'
         | None \<Rightarrow>
             (case csiFnBranch d of
                Some d' \<Rightarrow> Inr d'
              | None \<Rightarrow>
                  (case csiTildeBranch d of
                     Some d' \<Rightarrow> Inr d'
                   | None \<Rightarrow> Inr (csiLookupBranch d)))))"

text \<open>The tail shared by the three CSI states on a final byte: dispatch, then reset unless
  the dispatch switched to paste mode.\<close>

definition csiFinal :: "Decoder \<Rightarrow> 8 word \<Rightarrow> Abort + Decoder" where
  "csiFinal d byte =
     (case handleCSISequence (d\<lparr>final := [byteChar byte]\<rparr>) of
        Inl e \<Rightarrow> Inl e
      | Inr d' \<Rightarrow> Inr (if state d' \<noteq> Paste then reset d' else d'))"

subsection \<open>The state machine\<close>

definition handleControlChar :: "Decoder \<Rightarrow> 8 word \<Rightarrow> Decoder" where
  "handleControlChar d byte =
     (case (if quirksEnabled d then remapControlChar (termType d) byte else None) of
        Some (key, mods) \<Rightarrow> emitKey d key False mods None
      | None \<Rightarrow>
          (case CTRL_CHARS (unat byte) of
             Some c \<Rightarrow>
               (let isCtrlChar = (byte < 0x20 \<and> byte \<noteq> 0x09 \<and> byte \<noteq> 0x0a \<and> byte \<noteq> 0x0d
                                  \<and> byte \<noteq> 0x1b)
                in emitKey d c isCtrlChar noMods None)
           | None \<Rightarrow> d))"

definition processIdle :: "Decoder \<Rightarrow> 8 word \<Rightarrow> Decoder" where
  "processIdle d byte =
     (if byte = 0x1b then d\<lparr>state := Escape, bufferPos := 1, buffer := (buffer d)[0 := byte]\<rparr>
      else if byte < 0x20 \<or> byte = 0x7f then
        (if kittyEnabled d then
           (if (if quirksEnabled d then remapControlChar (termType d) byte else None) \<noteq> None
            then handleControlChar d byte
            else d)
         else handleControlChar d byte)
      else
        (if \<not> kittyEnabled d then emitKey d (Char [unat byte]) False noMods None else d))"

definition handleEscapeChar :: "Decoder \<Rightarrow> 8 word \<Rightarrow> Decoder" where
  "handleEscapeChar d byte =
     (if byte \<ge> 0x20 \<and> byte < 0x7f then
        (case (if quirksEnabled d then remapAltEscapeChar (termType d) (byteChar byte) else None) of
           Some k \<Rightarrow> emitKey d (Named k) False (noMods\<lparr>alt := True\<rparr>) None
         | None \<Rightarrow> emitKey d (Char [unat byte]) False (noMods\<lparr>alt := True\<rparr>) None)
      else emitKey d (Char (str ''Unknown:ESC+'' @ [unat byte])) False noMods None)"

definition processEscape :: "Decoder \<Rightarrow> 8 word \<Rightarrow> Decoder" where
  "processEscape d byte =
     (if byte = 0x5b then d\<lparr>state := CSI, params := [], intermediates := []\<rparr>
      else if byte = 0x4f then d\<lparr>state := SS3\<rparr>
      else if byte = 0x50 then d\<lparr>state := DCS\<rparr>
      else if byte = 0x5d then d\<lparr>state := OSC, oscBuffer := [], oscParam := []\<rparr>
      else reset (handleEscapeChar d byte))"

definition processCSI :: "Decoder \<Rightarrow> 8 word \<Rightarrow> Abort + Decoder" where
  "processCSI d byte =
     (if byte \<ge> 0x30 \<and> byte \<le> 0x39
      then Inr (d\<lparr>state := CSI_Param, params := params d @ [unat byte - 0x30]\<rparr>)
      else if byte = 0x3b \<or> byte = 0x3a
      then Inr (d\<lparr>params := params d @ [0], state := CSI_Param\<rparr>)
      else if byte = 0x3c then Inr (d\<lparr>intermediates := ''<'', state := CSI_Param\<rparr>)
      else if byte \<ge> 0x20 \<and> byte \<le> 0x2f
      then Inr (d\<lparr>intermediates := [byteChar byte], state := CSI_Intermediate\<rparr>)
      else if byte \<ge> 0x40 \<and> byte \<le> 0x7e then csiFinal d byte
      else Inr (reset d))"

definition processCSIParam :: "Decoder \<Rightarrow> 8 word \<Rightarrow> Abort + Decoder" where
  "processCSIParam d byte =
     (if byte \<ge> 0x30 \<and> byte \<le> 0x39 then
        (if length (params d) = 0 then Inr (d\<lparr>params := params d @ [unat byte - 0x30]\<rparr>)
         else
           (let lastParam = length (params d) - 1;
                currentValue = params d ! lastParam
            in if currentValue < MAX_CSI_PARAM
               then Inr (d\<lparr>params := (params d)[lastParam := currentValue * 10 + (unat byte - 0x30)]\<rparr>)
               else Inr d))
      else if byte = 0x3b \<or> byte = 0x3a then
        (if length (params d) < MAX_CSI_PARAMS then Inr (d\<lparr>params := params d @ [0]\<rparr>) else Inr d)
      else if byte \<ge> 0x20 \<and> byte \<le> 0x2f
      then Inr (d\<lparr>intermediates := intermediates d @ [byteChar byte], state := CSI_Intermediate\<rparr>)
      else if byte \<ge> 0x40 \<and> byte \<le> 0x7e then csiFinal d byte
      else Inr (reset d))"

definition processCSIIntermediate :: "Decoder \<Rightarrow> 8 word \<Rightarrow> Abort + Decoder" where
  "processCSIIntermediate d byte =
     (if byte \<ge> 0x30 \<and> byte \<le> 0x39
      then Inr (d\<lparr>state := CSI_Param, params := params d @ [unat byte - 0x30]\<rparr>)
      else if byte \<ge> 0x20 \<and> byte \<le> 0x2f
      then Inr (d\<lparr>intermediates := intermediates d @ [byteChar byte]\<rparr>)
      else if byte \<ge> 0x40 \<and> byte \<le> 0x7e then csiFinal d byte
      else Inr (reset d))"

definition processSS3 :: "Decoder \<Rightarrow> 8 word \<Rightarrow> Decoder" where
  "processSS3 d byte =
     reset (case lookupKey SS3_KEY_MAP [byteChar byte] of
              Some key \<Rightarrow> emitKey d key False noMods None
            | None \<Rightarrow> emitKey d (Char (str ''Unknown:SS3+'' @ [unat byte])) False noMods None)"

definition endsWith :: "string \<Rightarrow> string \<Rightarrow> bool" where
  "endsWith s suffix = (length suffix \<le> length s \<and> drop (length s - length suffix) s = suffix)"

definition PASTE_END :: string where
  "PASTE_END = [CHR 0x1b, CHR ''['', CHR ''2'', CHR ''0'', CHR ''1'', CHR ''~'']"

definition processPaste :: "Decoder \<Rightarrow> 8 word \<Rightarrow> Decoder" where
  "processPaste d byte =
     (let pb = pasteBuffer d @ [byteChar byte]
      in if length pb \<ge> 6 \<and> endsWith pb PASTE_END
         then reset (d\<lparr>events := events d @ [PasteEvent (take (length pb - 6) pb)],
                       pasteBuffer := [], inPaste := False\<rparr>)
         else d\<lparr>pasteBuffer := pb\<rparr>)"

fun splitOn :: "char \<Rightarrow> string \<Rightarrow> string list" where
  "splitOn c [] = [[]]"
| "splitOn c (x # xs) =
     (if x = c then [] # splitOn c xs
      else (case splitOn c xs of [] \<Rightarrow> [[x]] | p # ps \<Rightarrow> (x # p) # ps))"

definition handleOSCSequence :: "Decoder \<Rightarrow> Decoder" where
  "handleOSCSequence d =
     (let d1 =
            (if oscParam d = ''52'' then
               (let parts = splitOn (CHR '';'') (oscBuffer d)
                in if length parts \<ge> 2 \<and> parts ! 0 = ''c''
                   then d\<lparr>events := events d @ [ClipboardEvent (parts ! 1)]\<rparr>
                   else d)
             else d)
      in d1\<lparr>oscBuffer := [], oscParam := []\<rparr>)"

definition processOSC :: "Decoder \<Rightarrow> 8 word \<Rightarrow> Decoder" where
  "processOSC d byte =
     (if byte = 0x1b then d\<lparr>oscBuffer := oscBuffer d @ [CHR 0x1b]\<rparr>
      else if byte = 0x5c \<and> endsWith (oscBuffer d) [CHR 0x1b]
      then reset (handleOSCSequence (d\<lparr>oscBuffer := butlast (oscBuffer d)\<rparr>))
      else if byte = 0x07 then reset (handleOSCSequence d)
      else
        (let d1 = d\<lparr>oscBuffer := oscBuffer d @ [byteChar byte]\<rparr>
         in if length (oscBuffer d1) > 10000 then reset d1
            else if oscParam d1 = [] \<and> CHR '';'' \<in> set (oscBuffer d1)
            then d1\<lparr>oscParam := takeWhile (\<lambda>c. c \<noteq> CHR '';'') (oscBuffer d1),
                     oscBuffer := tl (dropWhile (\<lambda>c. c \<noteq> CHR '';'') (oscBuffer d1))\<rparr>
            else d1))"

definition processByte :: "Decoder \<Rightarrow> 8 word \<Rightarrow> Abort + Decoder" where
  "processByte d0 byte =
     (let d = (if bufferPos d0 < SEQUENCE_BUFFER_SIZE
               then d0\<lparr>buffer := (buffer d0)[bufferPos d0 := byte], bufferPos := bufferPos d0 + 1\<rparr>
               else d0)
      in case state d of
           Idle \<Rightarrow> Inr (processIdle d byte)
         | Escape \<Rightarrow> Inr (processEscape d byte)
         | CSI \<Rightarrow> processCSI d byte
         | CSI_Param \<Rightarrow> processCSIParam d byte
         | CSI_Intermediate \<Rightarrow> processCSIIntermediate d byte
         | SS3 \<Rightarrow> Inr (processSS3 d byte)
         | Paste \<Rightarrow> Inr (processPaste d byte)
         | OSC \<Rightarrow> Inr (processOSC d byte)
         | DCS \<Rightarrow> Inr (if byte = 0x1b then d\<lparr>state := Escape\<rparr>
                        else if byte = 0x07 then reset d else d))"

text \<open>\<open>feed\<close> processes the bytes in order; an exception leaves the loop.\<close>

fun feed :: "Decoder \<Rightarrow> 8 word list \<Rightarrow> Abort + Decoder" where
  "feed d [] = Inr d"
| "feed d (byte # rest) =
     (case processByte d byte of Inl e \<Rightarrow> Inl e | Inr d' \<Rightarrow> feed d' rest)"

section \<open>Capability controller (src/input/features.ts, detection.ts, enable.ts)\<close>

datatype InputFeature = MouseTracking | KittyKeyboard | BracketedPaste | FocusEvents | Clipboard

text \<open>The level \<^verbatim>\<open>'none'\<close> is \<open>NoneLevel\<close>.\<close>

datatype SupportLevel = Full | Partial | NoneLevel

definition featureName :: "InputFeature \<Rightarrow> string" where
  "featureName f =
     (case f of MouseTracking \<Rightarrow> ''mouseTracking'' | KittyKeyboard \<Rightarrow> ''kittyKeyboard''
      | BracketedPaste \<Rightarrow> ''bracketedPaste'' | FocusEvents \<Rightarrow> ''focusEvents''
      | Clipboard \<Rightarrow> ''clipboard'')"

definition terminalTypeName :: "TerminalType \<Rightarrow> string" where
  "terminalTypeName t =
     (case t of Kitty \<Rightarrow> ''kitty'' | Ghostty \<Rightarrow> ''ghostty'' | ITerm \<Rightarrow> ''iterm''
      | Tmux \<Rightarrow> ''tmux'' | SSH \<Rightarrow> ''ssh'' | Unknown \<Rightarrow> ''unknown'')"

definition TERMINAL_FEATURE_SUPPORT :: "TerminalType \<Rightarrow> InputFeature \<Rightarrow> SupportLevel" where
  "TERMINAL_FEATURE_SUPPORT t f =
     (case t of
        Kitty \<Rightarrow> Full
      | Ghostty \<Rightarrow> Full
      | ITerm \<Rightarrow>
          (case f of MouseTracking \<Rightarrow> Partial | KittyKeyboard \<Rightarrow> NoneLevel
           | BracketedPaste \<Rightarrow> Full | FocusEvents \<Rightarrow> Full | Clipboard \<Rightarrow> Full)
      | Tmux \<Rightarrow>
          (case f of MouseTracking \<Rightarrow> Partial | KittyKeyboard \<Rightarrow> NoneLevel
           | BracketedPaste \<Rightarrow> Full | FocusEvents \<Rightarrow> NoneLevel | Clipboard \<Rightarrow> Partial)
      | SSH \<Rightarrow>
          (case f of MouseTracking \<Rightarrow> Partial | KittyKeyboard \<Rightarrow> NoneLevel
           | BracketedPaste \<Rightarrow> Partial | FocusEvents \<Rightarrow> NoneLevel | Clipboard \<Rightarrow> NoneLevel)
      | Unknown \<Rightarrow> NoneLevel)"

subsection \<open>Terminal type detection\<close>

text \<open>
  The environment: a variable that is not set is \<open>None\<close>, and \<^verbatim>\<open>process.env.X || ''\<close>
  reads it as the empty string.  The strings of the environment are modelled over ASCII,
  where \<open>toLowerCase\<close> maps \<open>A\<close>..\<open>Z\<close> to \<open>a\<close>..\<open>z\<close>.
\<close>

record Env =
  TERM' :: "string option"
  TERM_PROGRAM :: "string option"
  TERM_PROGRAM_VERSION :: "string option"
  SSH_CONNECTION :: "string option"
  TMUX :: "string option"

definition orEmpty :: "string option \<Rightarrow> string" where
  "orEmpty v = (case v of None \<Rightarrow> [] | Some x \<Rightarrow> x)"

definition toLowerCase :: "string \<Rightarrow> string" where
  "toLowerCase s =
     map (\<lambda>c. let n = (of_char c :: nat) in if 65 \<le> n \<and> n \<le> 90 then char_of (n + 32) else c) s"

fun includesStr :: "string \<Rightarrow> string \<Rightarrow> bool" where
  "includesStr [] sub = (sub = [])"
| "includesStr (x # xs) sub = (take (length sub) (x # xs) = sub \<or> includesStr xs sub)"

record Detected =
  dtype :: TerminalType
  version :: "string option"
  isSSH :: bool
  isTmux :: bool

definition detectTerminalType :: "Env \<Rightarrow> Detected" where
  "detectTerminalType env =
     (let term = orEmpty (TERM' env);
          termProgram = orEmpty (TERM_PROGRAM env);
          termProgramVersion = orEmpty (TERM_PROGRAM_VERSION env);
          sshConnection = orEmpty (SSH_CONNECTION env);
          tmux = orEmpty (TMUX env);
          ssh = (length sshConnection > 0);
          tm = (length tmux > 0)
      in if toLowerCase termProgram = ''kitty''
         then \<lparr>dtype = Kitty, version = Some termProgramVersion, isSSH = ssh, isTmux = tm\<rparr>
         else if toLowerCase termProgram = ''ghostty''
         then \<lparr>dtype = Ghostty, version = Some termProgramVersion, isSSH = ssh, isTmux = tm\<rparr>
         else if toLowerCase termProgram = ''iterm.app''
         then \<lparr>dtype = ITerm, version = Some termProgramVersion, isSSH = ssh, isTmux = tm\<rparr>
         else if includesStr (toLowerCase termProgram) ''zed'' \<or> includesStr term ''alacritty''
         then \<lparr>dtype = ITerm, version = Some termProgramVersion, isSSH = ssh, isTmux = tm\<rparr>
         else if termProgram = [] \<and> includesStr term ''kitty''
         then \<lparr>dtype = Kitty, version = Some termProgramVersion, isSSH = ssh, isTmux = tm\<rparr>
         else if termProgram = [] \<and> includesStr term ''ghostty''
         then \<lparr>dtype = Ghostty, version = Some termProgramVersion, isSSH = ssh, isTmux = tm\<rparr>
         else if tm then \<lparr>dtype = Tmux, version = None, isSSH = ssh, isTmux = tm\<rparr>
         else if ssh then \<lparr>dtype = SSH, version = None, isSSH = ssh, isTmux = tm\<rparr>
         else \<lparr>dtype = Unknown, version = None, isSSH = ssh, isTmux = tm\<rparr>)"

definition getBaseFeatureSupport :: "TerminalType \<Rightarrow> bool \<Rightarrow> bool \<Rightarrow> InputFeature \<Rightarrow> SupportLevel" where
  "getBaseFeatureSupport terminalType ssh tm =
     (let support = TERMINAL_FEATURE_SUPPORT terminalType;
          support1 =
            (if ssh \<and> terminalType \<noteq> SSH then
               (let a = (if support Clipboard = Full then support(Clipboard := Partial) else support)
                in if a FocusEvents = Full then a(FocusEvents := NoneLevel) else a)
             else support);
          support2 =
            (if tm \<and> terminalType \<noteq> Tmux then
               (let a = (if support1 KittyKeyboard = Full then support1(KittyKeyboard := NoneLevel)
                         else support1)
                in if a FocusEvents = Full then a(FocusEvents := NoneLevel) else a)
             else support1)
      in support2)"

record DetectedCapabilities =
  terminalType :: TerminalType
  features :: "InputFeature \<Rightarrow> SupportLevel"
  capVersion :: "string option"
  capIsSSH :: bool
  capIsTmux :: bool

text \<open>\<open>detectCapabilities\<close> without its cache and without the optional probe of an
  \<open>Unknown\<close> terminal, whose answer comes from the terminal: the record it builds from
  the environment.\<close>

definition detectCapabilities :: "Env \<Rightarrow> DetectedCapabilities" where
  "detectCapabilities env =
     (let d = detectTerminalType env
      in \<lparr>terminalType = dtype d,
          features = getBaseFeatureSupport (dtype d) (isSSH d) (isTmux d),
          capVersion = version d, capIsSSH = isSSH d, capIsTmux = isTmux d\<rparr>)"

text \<open>
  The claim's priority order, written as a chain: the first source in the order
  \<open>TERM_PROGRAM\<close>, \<open>TERM\<close> substring, tmux, SSH that names a terminal decides, with the
  names and substrings the code looks for.
\<close>

definition byTermProgram :: "Env \<Rightarrow> TerminalType option" where
  "byTermProgram env =
     (let tp = toLowerCase (orEmpty (TERM_PROGRAM env))
      in if tp = ''kitty'' then Some Kitty
         else if tp = ''ghostty'' then Some Ghostty
         else if tp = ''iterm.app'' then Some ITerm
         else if includesStr tp ''zed'' then Some ITerm
         else None)"

definition byTermSubstring :: "Env \<Rightarrow> TerminalType option" where
  "byTermSubstring env =
     (let term = orEmpty (TERM' env)
      in if includesStr term ''alacritty'' then Some ITerm
         else if includesStr term ''kitty'' then Some Kitty
         else if includesStr term ''ghostty'' then Some Ghostty
         else None)"

definition byTmux :: "Env \<Rightarrow> TerminalType option" where
  "byTmux env = (if orEmpty (TMUX env) \<noteq> [] then Some Tmux else None)"

definition bySSH :: "Env \<Rightarrow> TerminalType option" where
  "bySSH env = (if orEmpty (SSH_CONNECTION env) \<noteq> [] then Some SSH else None)"

fun firstSome :: "'a option list \<Rightarrow> 'a \<Rightarrow> 'a" where
  "firstSome [] d = d"
| "firstSome (None # xs) d = firstSome xs d"
| "firstSome (Some x # xs) d = x"

definition priorityType_spec :: "Env \<Rightarrow> TerminalType" where
  "priorityType_spec env =
     firstSome [byTermProgram env, byTermSubstring env, byTmux env, bySSH env] Unknown"

text \<open>The same chain with the gate the code puts on the \<open>TERM\<close> substrings \<open>kitty\<close> and
  \<open>ghostty\<close>: they are looked for only when \<open>TERM_PROGRAM\<close> is unset or empty.\<close>

definition byTermSubstring_gated :: "Env \<Rightarrow> TerminalType option" where
  "byTermSubstring_gated env =
     (let term = orEmpty (TERM' env)
      in if includesStr term ''alacritty'' then Some ITerm
         else if orEmpty (TERM_PROGRAM env) = [] \<and> includesStr term ''kitty'' then Some Kitty
         else if orEmpty (TERM_PROGRAM env) = [] \<and> includesStr term ''ghostty'' then Some Ghostty
         else None)"

definition priorityType_gated :: "Env \<Rightarrow> TerminalType" where
  "priorityType_gated env =
     firstSome [byTermProgram env, byTermSubstring_gated env, byTmux env, bySSH env] Unknown"

text \<open>The downgrades as the claim words them, on a seeded row.\<close>

definition downgrade_spec :: "bool \<Rightarrow> bool \<Rightarrow> InputFeature \<Rightarrow> SupportLevel \<Rightarrow> SupportLevel" where
  "downgrade_spec ssh tm f seed =
     (if ssh \<and> f = Clipboard \<and> seed = Full then Partial
      else if ssh \<and> f = FocusEvents \<and> seed \<noteq> NoneLevel then NoneLevel
      else if tm \<and> f = KittyKeyboard \<and> seed \<noteq> NoneLevel then NoneLevel
      else if tm \<and> f = FocusEvents \<and> seed \<noteq> NoneLevel then NoneLevel
      else seed)"

subsection \<open>Enabling features (enable.ts, buffer.ts)\<close>

text \<open>
  The keys of \<^verbatim>\<open>config.features\<close> and of \<^verbatim>\<open>capabilities.features\<close> are strings; the five
  values of \<open>InputFeature\<close> are the strings \<open>featureName\<close> gives, and
  \<^verbatim>\<open>capabilities.features[feature]\<close> is \<^verbatim>\<open>undefined\<close> (\<open>None\<close>) for any other key.
\<close>

definition featureOfName :: "string \<Rightarrow> InputFeature option" where
  "featureOfName name =
     (if name = ''mouseTracking'' then Some MouseTracking
      else if name = ''kittyKeyboard'' then Some KittyKeyboard
      else if name = ''bracketedPaste'' then Some BracketedPaste
      else if name = ''focusEvents'' then Some FocusEvents
      else if name = ''clipboard'' then Some Clipboard
      else None)"

definition featureLevel :: "DetectedCapabilities \<Rightarrow> string \<Rightarrow> SupportLevel option" where
  "featureLevel capabilities feature = map_option (features capabilities) (featureOfName feature)"

definition isFeatureSupported :: "DetectedCapabilities \<Rightarrow> string \<Rightarrow> SupportLevel \<Rightarrow> bool" where
  "isFeatureSupported capabilities feature minLevel =
     (let level = featureLevel capabilities feature
      in if minLevel = NoneLevel then True
         else if minLevel = Partial then (level = Some Partial \<or> level = Some Full)
         else level = Some Full)"

text \<open>
  A feature's configuration \<^verbatim>\<open>{enabled, required?, options?}\<close>; an absent \<open>required\<close> is
  falsy.  The options read by the code are \<open>minLevel\<close>, \<open>protocol\<close>, \<open>allMotion\<close> and
  \<open>flags\<close>.  \<open>config.features\<close> and \<open>config.overrides\<close> are the lists of their entries in
  \<^verbatim>\<open>Object.entries\<close> order.
\<close>

datatype MouseProtocol = X10 | SGR

record FeatureConfig =
  enabled :: bool
  required :: bool
  minLevel :: "SupportLevel option"
  protocol :: "MouseProtocol option"
  allMotion :: "bool option"
  flags :: "nat option"

record TerminalModeState =
  rawMode :: bool
  mouseTracking :: bool
  mouseProtocol :: "MouseProtocol option"
  kittyKeyboard :: bool
  bracketedPaste :: bool
  focusEvents :: bool
  enabledFeatures :: "string \<Rightarrow> bool"
  supportedFeatures :: "string \<Rightarrow> SupportLevel option"

text \<open>The module's initial \<open>terminalState\<close>.\<close>

definition terminalState0 :: TerminalModeState where
  "terminalState0 =
     \<lparr>rawMode = False, mouseTracking = False, mouseProtocol = None, kittyKeyboard = False,
      bracketedPaste = False, focusEvents = False, enabledFeatures = (\<lambda>f. False),
      supportedFeatures = (\<lambda>f. None)\<rparr>"

text \<open>
  \<open>OutputBuffer\<close> (buffer.ts), to which \<open>Terminal.write\<close> and \<open>Terminal.flush\<close> delegate.
  Its methods \<open>write\<close> and \<open>flush\<close> are \<open>bufferWrite\<close> and \<open>bufferFlush\<close>, its string
  \<^verbatim>\<open>buffer\<close> is the field \<open>buf\<close>.  The stdout writer belongs to the runtime:
  \<open>sent\<close> collects what \<^verbatim>\<open>writer.write\<close> was given, and \<open>writer\<close> lists the outcomes of
  its coming calls, \<open>None\<close> for a call that returns and \<open>Some e\<close> for a call that throws
  \<open>e\<close>; once the list is used up every call returns.

  A thrown value is modelled by the string \<^verbatim>\<open>String(e)\<close>, which for \<^verbatim>\<open>new Error(m)\<close> is
  \<^verbatim>\<open>Error: \<close> followed by \<open>m\<close>.  A procedure returns \<open>(None, s)\<close> when it returns and
  \<open>(Some e, s)\<close> when it throws \<open>e\<close>, with the state \<open>s\<close> it has reached.
\<close>

record OutputBuffer =
  buf :: string
  highWaterMark :: nat
  sent :: "string list"
  writer :: "string option list"

definition bufferFlush :: "OutputBuffer \<Rightarrow> string option \<times> OutputBuffer" where
  "bufferFlush b =
     (if length (buf b) = 0 then (None, b)
      else (case writer b of
              [] \<Rightarrow> (None, b\<lparr>buf := [], sent := sent b @ [buf b]\<rparr>)
            | None # later \<Rightarrow> (None, b\<lparr>buf := [], sent := sent b @ [buf b], writer := later\<rparr>)
            | Some e # later \<Rightarrow> (Some e, b\<lparr>writer := later\<rparr>)))"

definition bufferWrite :: "OutputBuffer \<Rightarrow> string \<Rightarrow> string option \<times> OutputBuffer" where
  "bufferWrite b data =
     (if length (buf b) + length data > highWaterMark b then
        (case bufferFlush b of
           (Some e, b1) \<Rightarrow> (Some e, b1)
         | (None, b1) \<Rightarrow> (None, b1\<lparr>buf := buf b1 @ data\<rparr>))
      else (None, b\<lparr>buf := buf b @ data\<rparr>))"

text \<open>The module state \<open>terminalState\<close> together with the terminal's output buffer.\<close>

record World =
  terminalState :: TerminalModeState
  out :: OutputBuffer

definition termWrite :: "World \<Rightarrow> string \<Rightarrow> string option \<times> World" where
  "termWrite w data = (case bufferWrite (out w) data of (r, b) \<Rightarrow> (r, w\<lparr>out := b\<rparr>))"

definition termFlush :: "World \<Rightarrow> string option \<times> World" where
  "termFlush w = (case bufferFlush (out w) of (r, b) \<Rightarrow> (r, w\<lparr>out := b\<rparr>))"

text \<open>Statement sequencing: what follows a statement that threw is not run.\<close>

definition thenDo ::
  "string option \<times> World \<Rightarrow> (World \<Rightarrow> string option \<times> World) \<Rightarrow> string option \<times> World" where
  "thenDo r f = (case r of (None, w) \<Rightarrow> f w | (Some e, w) \<Rightarrow> (Some e, w))"

definition CSIq :: "string \<Rightarrow> string" where
  "CSIq rest = [CHR 0x1b, CHR ''['', CHR ''?''] @ rest"

definition disableMouse :: "World \<Rightarrow> string option \<times> World" where
  "disableMouse w0 =
     (if \<not> mouseTracking (terminalState w0) then (None, w0)
      else
        thenDo (termWrite w0 (CSIq ''1003l'')) (\<lambda>w.
        thenDo (termWrite w (CSIq ''1002l'')) (\<lambda>w.
        thenDo (termWrite w (CSIq ''1000l'')) (\<lambda>w.
        thenDo (if mouseProtocol (terminalState w) = Some SGR then termWrite w (CSIq ''1006l'')
                else (None, w)) (\<lambda>w.
        thenDo (termFlush w) (\<lambda>w.
          (None, w\<lparr>terminalState :=
                     (terminalState w)\<lparr>mouseTracking := False, mouseProtocol := None\<rparr>\<rparr>)))))))"

definition enableMouse :: "World \<Rightarrow> MouseProtocol \<Rightarrow> bool \<Rightarrow> string option \<times> World" where
  "enableMouse w0 proto allM =
     thenDo (if mouseTracking (terminalState w0) then disableMouse w0 else (None, w0)) (\<lambda>w.
     thenDo (termWrite w (CSIq ''1000h'')) (\<lambda>w.
     thenDo (termWrite w (CSIq ''1002h'')) (\<lambda>w.
     thenDo (if allM then termWrite w (CSIq ''1003h'') else (None, w)) (\<lambda>w.
     thenDo (if proto = SGR then termWrite w (CSIq ''1006h'') else (None, w)) (\<lambda>w.
     thenDo (termFlush w) (\<lambda>w.
       (None, w\<lparr>terminalState :=
                  (terminalState w)\<lparr>mouseTracking := True, mouseProtocol := Some proto\<rparr>\<rparr>)))))))"

definition pushKittyKeyboard :: "World \<Rightarrow> nat option \<Rightarrow> string option \<times> World" where
  "pushKittyKeyboard w0 fl =
     (let f = (case fl of None \<Rightarrow> 0x01 OR 0x02 OR 0x08 | Some x \<Rightarrow> x)
      in thenDo (termWrite w0 ([CHR 0x1b, CHR ''['', CHR ''>''] @ showNat f @ ''u'')) (\<lambda>w.
         thenDo (termFlush w) (\<lambda>w.
           (None, w\<lparr>terminalState := (terminalState w)\<lparr>kittyKeyboard := True\<rparr>\<rparr>))))"

definition enableBracketedPaste :: "World \<Rightarrow> string option \<times> World" where
  "enableBracketedPaste w0 =
     (if bracketedPaste (terminalState w0) then (None, w0)
      else
        thenDo (termWrite w0 (CSIq ''2004h'')) (\<lambda>w.
        thenDo (termFlush w) (\<lambda>w.
          (None, w\<lparr>terminalState := (terminalState w)\<lparr>bracketedPaste := True\<rparr>\<rparr>))))"

definition enableFocusEvents :: "World \<Rightarrow> string option \<times> World" where
  "enableFocusEvents w0 =
     (if focusEvents (terminalState w0) then (None, w0)
      else
        thenDo (termWrite w0 (CSIq ''1004h'')) (\<lambda>w.
        thenDo (termFlush w) (\<lambda>w.
          (None, w\<lparr>terminalState := (terminalState w)\<lparr>focusEvents := True\<rparr>\<rparr>))))"

text \<open>\<open>enableFeature\<close>: the \<^verbatim>\<open>switch\<close> over the feature's name, whose \<^verbatim>\<open>default\<close> branch
  throws.\<close>

definition enableFeature :: "World \<Rightarrow> string \<Rightarrow> FeatureConfig \<Rightarrow> string option \<times> World" where
  "enableFeature w feature cfg =
     (case featureOfName feature of
        Some MouseTracking \<Rightarrow>
          enableMouse w (case protocol cfg of None \<Rightarrow> SGR | Some p \<Rightarrow> p) (allMotion cfg \<noteq> Some False)
      | Some KittyKeyboard \<Rightarrow> pushKittyKeyboard w (flags cfg)
      | Some BracketedPaste \<Rightarrow> enableBracketedPaste w
      | Some FocusEvents \<Rightarrow> enableFocusEvents w
      | Some Clipboard \<Rightarrow> (None, w)
      | None \<Rightarrow> (Some (''Error: Unknown feature: '' @ feature), w))"

text \<open>\<open>enableRawMode\<close>: nothing to do when raw mode is on; otherwise \<^verbatim>\<open>stty raw -echo\<close>
  is run, whose exit code is a parameter, and a non-zero exit code is thrown as an
  error.\<close>

definition enableRawMode :: "World \<Rightarrow> int \<Rightarrow> string option \<times> World" where
  "enableRawMode w exitCode =
     (if rawMode (terminalState w) then (None, w)
      else if exitCode \<noteq> 0 then (Some ''Error: Failed to enable raw mode'', w)
      else (None, w\<lparr>terminalState := (terminalState w)\<lparr>rawMode := True\<rparr>\<rparr>))"

text \<open>The two messages of the loop.\<close>

definition unsupportedMessage :: "string \<Rightarrow> TerminalType \<Rightarrow> string" where
  "unsupportedMessage feature tt =
     ''Required feature '' @ [CHR 0x27] @ feature @ [CHR 0x27]
       @ '' is not supported by terminal '' @ [CHR 0x27] @ terminalTypeName tt @ [CHR 0x27]"

definition failedMessage :: "string \<Rightarrow> string \<Rightarrow> string" where
  "failedMessage feature error =
     ''Failed to enable required feature '' @ [CHR 0x27] @ feature @ [CHR 0x27] @ '': '' @ error"

text \<open>\<^verbatim>\<open>(featureConfig.options?.minLevel as SupportLevel) || SupportLevel.Partial\<close>.\<close>

definition minLevelOf :: "FeatureConfig \<Rightarrow> SupportLevel" where
  "minLevelOf featureConfig = (case minLevel featureConfig of None \<Rightarrow> Partial | Some l \<Rightarrow> l)"

text \<open>The loop over the configured features, threading the state and the list
  \<open>errors\<close>; the \<^verbatim>\<open>try\<close> block sets \<open>enabledFeatures\<close> only when \<open>enableFeature\<close> has
  returned.\<close>

fun processFeatures ::
  "DetectedCapabilities \<Rightarrow> (string \<times> FeatureConfig) list \<Rightarrow> World \<Rightarrow> string list
     \<Rightarrow> World \<times> string list" where
  "processFeatures capabilities [] w errors = (w, errors)"
| "processFeatures capabilities ((feature, featureConfig) # rest) w errors =
     (if \<not> enabled featureConfig then processFeatures capabilities rest w errors
      else if \<not> isFeatureSupported capabilities feature (minLevelOf featureConfig) then
        (if required featureConfig
         then processFeatures capabilities rest w
                (errors @ [unsupportedMessage feature (terminalType capabilities)])
         else processFeatures capabilities rest w errors)
      else
        (case enableFeature w feature featureConfig of
           (None, w1) \<Rightarrow>
             processFeatures capabilities rest
               (w1\<lparr>terminalState :=
                     (terminalState w1)\<lparr>enabledFeatures :=
                        (enabledFeatures (terminalState w1))(feature := True)\<rparr>\<rparr>) errors
         | (Some error, w1) \<Rightarrow>
             (if required featureConfig
              then processFeatures capabilities rest w1 (errors @ [failedMessage feature error])
              else processFeatures capabilities rest w1 errors)))"

text \<open>The table \<open>supportedFeatures\<close> is filled from the capabilities and then from
  \<^verbatim>\<open>config.overrides\<close>; the loop above does not read it.\<close>

definition storeSupported ::
  "DetectedCapabilities \<Rightarrow> (string \<times> bool) list \<Rightarrow> World \<Rightarrow> World" where
  "storeSupported capabilities overrides w =
     (let stored = (\<lambda>feature. case featureLevel capabilities feature of
                       Some level \<Rightarrow> Some level
                     | None \<Rightarrow> supportedFeatures (terminalState w) feature);
          overridden = foldl (\<lambda>m (feature, supported).
                          m(feature := Some (if supported then Full else NoneLevel))) stored overrides
      in w\<lparr>terminalState := (terminalState w)\<lparr>supportedFeatures := overridden\<rparr>\<rparr>)"

text \<open>
  \<open>initializeInput\<close> with the capabilities it works on (\<^verbatim>\<open>config.detectedCapabilities\<close>
  or what detection returned).  It returns \<open>getInputStatus()\<close>, a copy of the fields of
  \<open>terminalState\<close>; the decoder configured at the end is not part of this state.
\<close>

definition getInputStatus :: "World \<Rightarrow> TerminalModeState" where
  "getInputStatus w = terminalState w"

definition initializeInput ::
  "World \<Rightarrow> int \<Rightarrow> DetectedCapabilities \<Rightarrow> (string \<times> bool) list \<Rightarrow> (string \<times> FeatureConfig) list
     \<Rightarrow> (string + TerminalModeState) \<times> World" where
  "initializeInput w0 sttyExit capabilities overrides configFeatures =
     (case enableRawMode (storeSupported capabilities overrides w0) sttyExit of
        (Some e, w) \<Rightarrow> (Inl e, w)
      | (None, w) \<Rightarrow>
          (case processFeatures capabilities configFeatures w [] of
             (w', errors) \<Rightarrow>
               if length errors > 0
               then (Inl (''Error: Input initialization failed:'' @ [CHR 0x0a]
                            @ joinStrings [CHR 0x0a] errors), w')
               else (Inr (getInputStatus w'), w')))"

text \<open>The constructor of \<open>OutputBuffer\<close>, with the outcomes the runtime's writer will
  have; \<open>Terminal\<close> passes \<^verbatim>\<open>options.highWaterMark ?? 64 * 1024\<close>.\<close>

definition newOutputBuffer :: "nat \<Rightarrow> string option list \<Rightarrow> OutputBuffer" where
  "newOutputBuffer hwm outcomes = \<lparr>buf = [], highWaterMark = hwm, sent = [], writer = outcomes\<rparr>"

text \<open>
  The notions the statements about \<open>initializeInput\<close> are written with.  A configured
  feature is \<open>unsupported\<close> when it is enabled and the capability matrix does not reach its
  minimum level.  Raw mode can be enabled when it is on already or \<^verbatim>\<open>stty\<close> exits with 0.
  A writer is \<open>quiet\<close> when none of its coming calls throws.
\<close>

definition unsupported :: "DetectedCapabilities \<Rightarrow> string \<times> FeatureConfig \<Rightarrow> bool" where
  "unsupported capabilities entry =
     (enabled (snd entry) \<and> \<not> isFeatureSupported capabilities (fst entry) (minLevelOf (snd entry)))"

definition rawModeWorks :: "World \<Rightarrow> int \<Rightarrow> bool" where
  "rawModeWorks w sttyExit = (rawMode (terminalState w) \<or> sttyExit = 0)"

definition quiet :: "World \<Rightarrow> bool" where
  "quiet w = list_all (\<lambda>outcome. outcome = None) (writer (out w))"

text \<open>The state in which the loop over the configured features starts.\<close>

definition loopStart :: "World \<Rightarrow> int \<Rightarrow> DetectedCapabilities \<Rightarrow> (string \<times> bool) list \<Rightarrow> World" where
  "loopStart w sttyExit capabilities overrides =
     snd (enableRawMode (storeSupported capabilities overrides w) sttyExit)"

definition failureHeader :: string where
  "failureHeader = ''Error: Input initialization failed:'' @ [CHR 0x0a]"

text \<open>
  Values to run the code on: the module's initial state with a fresh terminal whose writer
  never throws, the configuration \<^verbatim>\<open>{enabled: true, required: r}\<close> without options, and
  the capabilities of a terminal of a given type outside SSH and tmux.
\<close>

definition world0 :: World where
  "world0 = \<lparr>terminalState = terminalState0, out = newOutputBuffer (64 * 1024) []\<rparr>"

definition plainConfig :: "bool \<Rightarrow> FeatureConfig" where
  "plainConfig r =
     \<lparr>enabled = True, required = r, minLevel = None, protocol = None, allMotion = None,
      flags = None\<rparr>"

definition plainCapabilities :: "TerminalType \<Rightarrow> DetectedCapabilities" where
  "plainCapabilities t =
     \<lparr>terminalType = t, features = getBaseFeatureSupport t False False, capVersion = None,
      capIsSSH = False, capIsTmux = False\<rparr>"

section \<open>Engine states and what a frame leaves behind\<close>

text \<open>
  The states an engine can be in: built by the constructor and changed by the public
  operations.  \<open>computeDiff\<close> is among them, also when it is left by an exception, so
  that every state a host can hold is covered.
\<close>

inductive reachable :: "DiffEngine \<Rightarrow> bool" where
  r_new: "reachable (newDiffEngine r c)"
| r_setCellWithAttrs: "reachable s \<Longrightarrow> reachable (setCellWithAttrs s row col char attrs)"
| r_setCell: "reachable s \<Longrightarrow> reachable (setCell s row col cell)"
| r_clear: "reachable s \<Longrightarrow> reachable (clear s)"
| r_markDirty: "reachable s \<Longrightarrow> reachable (markDirty s row)"
| r_markAllDirty: "reachable s \<Longrightarrow> reachable (markAllDirty s)"
| r_resize: "reachable s \<Longrightarrow> reachable (resize s r c)"
| r_computeDiff: "reachable s \<Longrightarrow> reachable (snd (computeDiff s))"

text \<open>The representation invariant: both buffers have \<open>rows * cols\<close> cells, there is one
  dirty flag per row, and a row whose flag is not set is the same in both buffers.\<close>

definition engine_ok :: "DiffEngine \<Rightarrow> bool" where
  "engine_ok s =
     (size' s = rows s * cols s \<and> length (prev s) = rows s * cols s
      \<and> length (curr s) = rows s * cols s \<and> length (dirty s) = rows s
      \<and> (\<forall>row < rows s. dirty s ! row \<noteq> 1 \<longrightarrow>
            (\<forall>col < cols s. prev s ! (row * cols s + col) = curr s ! (row * cols s + col))))"

text \<open>Every character of the back buffer is a Unicode scalar value or surrogate, which
  is what \<^verbatim>\<open>String.fromCodePoint\<close> accepts.\<close>

definition printable :: "DiffEngine \<Rightarrow> bool" where
  "printable s = list_all (\<lambda>cell. unat (fst cell AND CHAR_MASK) \<le> 0x10ffff) (curr s)"


text \<open>What the loop over the rows of \<open>computeDiff\<close> has put into \<open>output\<close> when it is
  left, before the test for the final reset.\<close>

definition frameBody :: "DiffEngine \<Rightarrow> jsstring" where
  "frameBody s =
     (case fst (computeDiff_rows [0..<rows s]
                  (s\<lparr>ansiState := \<lparr>attr = 0, fgS = None, bgS = None\<rparr>, hasSetBackground := False\<rparr>)
                  [] (- 1) (- 1)) of
        Inl e \<Rightarrow> []
      | Inr (output, lastRow, lastCol) \<Rightarrow> output)"

text \<open>
  Engines to run a frame on.  \<open>gridXY\<close> is the scenario of the spec: a 1 by 2 grid with
  \<open>X\<close> on a red background followed by a plain \<open>Y\<close>.  \<open>gridX\<close> is its first cell alone.  In
  \<open>gridXP\<close> the second cell is the packed cell of \<open>Y\<close> whose background field holds 1, the
  code of palette index 0.
\<close>

definition redBackground :: Attributes where
  "redBackground = noAttributes\<lparr>bg := Some (Hex ''#ff0000'')\<rparr>"

definition gridXY :: DiffEngine where
  "gridXY = setCellWithAttrs
              (setCellWithAttrs (newDiffEngine 1 2) 0 0 (str ''X'') (Some redBackground))
              0 1 (str ''Y'') (Some noAttributes)"


definition gridXP :: DiffEngine where
  "gridXP = setCell
              (setCellWithAttrs (newDiffEngine 1 2) 0 0 (str ''X'') (Some redBackground))
              0 1 (0x59, 0x0001)"

section \<open>Colour codec: round trips\<close>

lemma and_0x1f_mod: "(x::nat) AND 0x1f = x mod 32"
proof -
  have "x AND mask 5 = x mod 2 ^ 5"
    by (simp only: flip: take_bit_eq_mask take_bit_eq_mod)
  then show ?thesis by (simp add: mask_eq_exp_minus_1)
qed

lemma and_0x3f_mod: "(x::nat) AND 0x3f = x mod 64"
proof -
  have "x AND mask 6 = x mod 2 ^ 6"
    by (simp only: flip: take_bit_eq_mask take_bit_eq_mod)
  then show ?thesis by (simp add: mask_eq_exp_minus_1)
qed

lemma and_0xff_mod: "(x::nat) AND 0xff = x mod 256"
proof -
  have "x AND mask 8 = x mod 2 ^ 8"
    by (simp only: flip: take_bit_eq_mask take_bit_eq_mod)
  then show ?thesis by (simp add: mask_eq_exp_minus_1)
qed

lemma or_push_add:
  fixes a b :: nat
  assumes "b < 2 ^ n"
  shows "push_bit n a OR b = push_bit n a + b"
proof (rule disjunctive_add [symmetric])
  fix k
  show "\<not> bit (push_bit n a) k \<or> \<not> bit b k"
  proof (cases "n \<le> k")
    case True
    have "(2::nat) ^ n \<le> 2 ^ k" using True by (simp add: power_increasing)
    with assms have "b < 2 ^ k" by (rule less_le_trans)
    then show ?thesis by (simp add: bit_iff_odd)
  next
    case False
    then show ?thesis by (simp add: bit_push_bit_iff)
  qed
qed

text \<open>Packing keeps the top 5, 6 and 5 bits of the channels; unpacking replicates the top
  bits of each field into the bits that were dropped.\<close>

lemma unpack_pack:
  assumes "r < 256" "g < 256" "b < 256"
  shows "unpackRgbColor (packRgbColor r g b)
         = (8 * (r div 8) + r div 32, 4 * (g div 4) + g div 64, 8 * (b div 8) + b div 32)"
proof -
  define r5 where "r5 = r div 8"
  define g6 where "g6 = g div 4"
  define b5 where "b5 = b div 8"
  have bnd: "r5 < 32" "g6 < 64" "b5 < 32"
    using assms by (simp_all add: r5_def g6_def b5_def)
  have p: "packRgbColor r g b - COLOR_RGB_START = r5 * 2048 + g6 * 32 + b5"
    using bnd
    by (simp add: packRgbColor_def and_0x1f_mod and_0x3f_mod drop_bit_eq_div push_bit_eq_mult
        r5_def g6_def b5_def)
  have f1: "(r5 * 2048 + g6 * 32 + b5) div 2048 mod 32 = r5" using bnd by simp
  have e: "(r5 * 2048 + g6 * 32 + b5) div 32 = r5 * 64 + g6" using bnd by linarith
  have f2: "(r5 * 2048 + g6 * 32 + b5) div 32 mod 64 = g6" using e bnd by simp
  have f3: "(r5 * 2048 + g6 * 32 + b5) mod 32 = b5"
    using e mult_div_mod_eq [of 32 "r5 * 2048 + g6 * 32 + b5"] by linarith
  have o1: "push_bit 3 r5 OR r5 div 4 = push_bit 3 r5 + r5 div 4"
    using bnd by (intro or_push_add) simp
  have o2: "push_bit 2 g6 OR g6 div 16 = push_bit 2 g6 + g6 div 16"
    using bnd by (intro or_push_add) simp
  have o3: "push_bit 3 b5 OR b5 div 4 = push_bit 3 b5 + b5 div 4"
    using bnd by (intro or_push_add) simp
  have d1: "r5 div 4 = r div 32" and d2: "g6 div 16 = g div 64" and d3: "b5 div 4 = b div 32"
    by (simp_all add: r5_def g6_def b5_def div_mult2_eq)
  have u: "unpackRgbColor (packRgbColor r g b)
           = (push_bit 3 r5 OR r5 div 4, push_bit 2 g6 OR g6 div 16, push_bit 3 b5 OR b5 div 4)"
    unfolding unpackRgbColor_def p
    by (simp add: and_0x1f_mod and_0x3f_mod drop_bit_eq_div f1 f2 f3 Let_def)
  show ?thesis
    unfolding u o1 o2 o3
    by (simp add: push_bit_eq_mult d1 d2 d3) (simp add: r5_def g6_def b5_def)
qed

lemma hexVal_hexDigit: "d < 16 \<Longrightarrow> hexVal (hexDigit d) = d"
  by (auto simp: hexVal_def hexDigit_def Let_def)

lemma isHexDigit_hexDigit: "d < 16 \<Longrightarrow> isHexDigit (hexDigit d)"
  by (auto simp: isHexDigit_def hexDigit_def Let_def)

lemma parseInt16_snoc: "parseInt16 (xs @ [c]) = 16 * parseInt16 xs + hexVal c"
  by (simp add: parseInt16_def)

lemma parseInt16_toString16: "parseInt16 (toString16 n) = n"
proof (induction n rule: toString16.induct)
  case (1 n)
  show ?case
  proof (cases "n < 16")
    case True
    then show ?thesis by (simp add: toString16.simps [of n] parseInt16_def hexVal_hexDigit)
  next
    case False
    with 1 show ?thesis
      by (simp add: toString16.simps [of n] parseInt16_snoc hexVal_hexDigit)
  qed
qed

lemma hex_toString16: "list_all isHexDigit (toString16 n)"
proof (induction n rule: toString16.induct)
  case (1 n)
  show ?case
  proof (cases "n < 16")
    case True
    then show ?thesis by (simp add: toString16.simps [of n] isHexDigit_hexDigit)
  next
    case False
    with 1 show ?thesis
      by (simp add: toString16.simps [of n] isHexDigit_hexDigit)
  qed
qed

lemma length_toString16: "n < 16 ^ k \<Longrightarrow> 0 < k \<Longrightarrow> length (toString16 n) \<le> k"
proof (induction n arbitrary: k rule: toString16.induct)
  case (1 n)
  show ?case
  proof (cases "n < 16")
    case True
    then show ?thesis using 1(3) by (simp add: toString16.simps [of n])
  next
    case False
    then obtain j where k: "k = Suc j" using 1(3) by (cases k) auto
    have "0 < j" using False 1(2) k by (cases j) auto
    moreover have "n div 16 < 16 ^ j"
      using 1(2) k by (simp add: less_mult_imp_div_less mult.commute)
    ultimately have "length (toString16 (n div 16)) \<le> j" using 1(1) False by simp
    then show ?thesis using False k by (simp add: toString16.simps [of n])
  qed
qed

lemma parseInt16_zeros: "parseInt16 (replicate k (CHR ''0'') @ s) = parseInt16 s"
  by (induction k) (simp_all add: parseInt16_def hexVal_def)

lemma rgb_or_add:
  fixes r g b :: nat
  assumes "g < 256" "b < 256"
  shows "push_bit 16 r OR push_bit 8 g OR b = r * 65536 + g * 256 + b"
proof -
  have 1: "push_bit 8 g OR b = push_bit 8 g + b"
    using assms by (simp add: or_push_add)
  have "push_bit 8 g + b < 2 ^ 16" using assms by (simp add: push_bit_eq_mult)
  then have "push_bit 16 r OR (push_bit 8 g + b) = push_bit 16 r + (push_bit 8 g + b)"
    by (rule or_push_add)
  then show ?thesis using 1 by (simp add: push_bit_eq_mult or.assoc)
qed

text \<open>What \<open>decodeColor\<close> prints for three channels reads back as the same channels.\<close>

lemma hexChannels_hex6:
  assumes "r < 256" "g < 256" "b < 256"
  shows "hexChannels (CHR ''#'' # padStart 6 (CHR ''0'') (toString16 (r * 65536 + g * 256 + b)))
         = Some (r, g, b)"
proof -
  define n where "n = r * 65536 + g * 256 + b"
  have lt: "n < 16 ^ 6" using assms unfolding n_def by simp
  have len: "length (toString16 n) \<le> 6" using length_toString16 [OF lt] by simp
  have z: "list_all isHexDigit (replicate (6 - length (toString16 n)) (CHR ''0''))"
    by (simp add: list_all_iff isHexDigit_def)
  have m: "hexMatch (CHR ''#'' # padStart 6 (CHR ''0'') (toString16 n))
           = Some (padStart 6 (CHR ''0'') (toString16 n))"
    using len z by (simp add: hexMatch_def padStart_def hex_toString16)
  have p: "parseInt16 (padStart 6 (CHR ''0'') (toString16 n)) = n"
    by (simp add: padStart_def parseInt16_zeros parseInt16_toString16)
  have 1: "n div 65536 mod 256 = r" using assms unfolding n_def by simp
  have e: "n div 256 = r * 256 + g" using assms unfolding n_def by linarith
  have 2: "n div 256 mod 256 = g" using e assms by simp
  have 3: "n mod 256 = b"
    using e mult_div_mod_eq [of 256 n] unfolding n_def by linarith
  show ?thesis
    unfolding n_def [symmetric]
    by (simp add: hexChannels_def m p and_0xff_mod drop_bit_eq_div 1 2 3)
qed

lemma hexChannels_bounds:
  assumes "hexChannels s = Some (r, g, b)"
  shows "r < 256 \<and> g < 256 \<and> b < 256 \<and> s \<noteq> []"
  using assms
  by (auto simp: hexChannels_def hexMatch_def and_0xff_mod Let_def split: option.splits list.splits if_splits)

lemma chan5_bound: "(x::nat) < 256 \<Longrightarrow> 8 * (x div 8) + x div 32 \<le> x + 7 \<and> x \<le> 8 * (x div 8) + x div 32 + 7"
proof -
  assume a: "x < 256"
  have 1: "x div 32 \<le> 7" using a by simp
  have 2: "8 * (x div 8) \<le> x" by simp
  have 3: "x < 8 * (x div 8) + 8" using dividend_less_times_div [of 8 x] by simp
  show ?thesis using 1 2 3 by linarith
qed

lemma chan6_bound: "(x::nat) < 256 \<Longrightarrow> 4 * (x div 4) + x div 64 \<le> x + 3 \<and> x \<le> 4 * (x div 4) + x div 64 + 3"
proof -
  assume a: "x < 256"
  have 1: "x div 64 \<le> 3" using a by simp
  have 2: "4 * (x div 4) \<le> x" by simp
  have 3: "x < 4 * (x div 4) + 4" using dividend_less_times_div [of 4 x] by simp
  show ?thesis using 1 2 3 by linarith
qed

lemma chan5_lt: "(x::nat) < 256 \<Longrightarrow> 8 * (x div 8) + x div 32 < 256"
proof -
  assume a: "x < 256"
  have "x div 8 \<le> 31" using a by simp
  moreover have "x div 32 \<le> 7" using a by simp
  ultimately show ?thesis by linarith
qed

lemma chan6_lt: "(x::nat) < 256 \<Longrightarrow> 4 * (x div 4) + x div 64 < 256"
proof -
  assume a: "x < 256"
  have "x div 4 \<le> 63" using a by simp
  moreover have "x div 64 \<le> 3" using a by simp
  ultimately show ?thesis by linarith
qed

lemma decode_encode_hex:
  assumes "hexChannels s = Some (r, g, b)"
  shows "decodeColor (encodeColor (Some (Hex s)))
         = Some (Hex (CHR ''#'' # padStart 6 (CHR ''0'')
             (toString16 ((8 * (r div 8) + r div 32) * 65536 + (4 * (g div 4) + g div 64) * 256
                          + (8 * (b div 8) + b div 32)))))"
proof -
  have bnd: "r < 256" "g < 256" "b < 256" "s \<noteq> []"
    using hexChannels_bounds [OF assms] by simp_all
  have enc: "encodeColor (Some (Hex s)) = packRgbColor r g b"
    using assms bnd by (simp add: encodeColor_def)
  have big: "packRgbColor r g b > 256"
    by (simp add: packRgbColor_def COLOR_RGB_START_def Let_def)
  have up: "unpackRgbColor (packRgbColor r g b)
            = (8 * (r div 8) + r div 32, 4 * (g div 4) + g div 64, 8 * (b div 8) + b div 32)"
    using bnd by (simp add: unpack_pack)
  have lt: "4 * (g div 4) + g div 64 < 256" "8 * (b div 8) + b div 32 < 256"
    using bnd by (simp_all add: chan5_lt chan6_lt)
  show ?thesis
    using big
    by (simp add: enc decodeColor_def COLOR_NONE_def COLOR_PALETTE_START_def up rgb_or_add [OF lt])
qed

lemma truecolor_roundtrip:
  assumes "hexChannels s = Some (r, g, b)"
  shows "\<exists>s'. decodeColor (encodeColor (Some (Hex s))) = Some (Hex s')
           \<and> hexChannels s' = Some (8 * (r div 8) + r div 32, 4 * (g div 4) + g div 64, 8 * (b div 8) + b div 32)"
proof -
  have bnd: "r < 256" "g < 256" "b < 256"
    using hexChannels_bounds [OF assms] by simp_all
  have lt: "8 * (r div 8) + r div 32 < 256" "4 * (g div 4) + g div 64 < 256" "8 * (b div 8) + b div 32 < 256"
    using bnd by (simp_all add: chan5_lt chan6_lt)
  show ?thesis
    unfolding decode_encode_hex [OF assms] using hexChannels_hex6 [OF lt] by blast
qed

lemma toString16_small: "n < 16 \<Longrightarrow> toString16 n = [hexDigit n]"
  by (simp add: toString16.simps [of n])

lemma toString16_large: "\<not> n < 16 \<Longrightarrow> toString16 n = toString16 (n div 16) @ [hexDigit (n mod 16)]"
  by (simp add: toString16.simps [of n])

lemma replicate_numeral_Cons: "replicate (numeral k) c = c # replicate (pred_numeral k) c"
  by (simp add: numeral_eq_Suc)

lemmas hex_eval =
  hexChannels_def hexMatch_def isHexDigit_def parseInt16_def hexVal_def

lemmas toString16_eval =
  padStart_def toString16_small toString16_large hexDigit_def char_of_def bit_Suc_0_iff
  replicate_numeral_Cons

lemma palette_roundtrip:
  assumes "1 \<le> p" "p \<le> 255"
  shows "decodeColor (encodeColor (Some (Palette p))) = Some (Palette p)"
  using assms
  by (simp add: encodeColor_def decodeColor_def COLOR_NONE_def COLOR_PALETTE_START_def and_0xff_mod)

subsection \<open>The tolerance of the 5-6-5 packing\<close>

text \<open>Decoding the number \<open>encodeColor\<close> returns, before it is stored in a field: red
  and blue come back within 7 and green within 3 of the original, and 7 is reached.\<close>

lemma decode_encode_tolerance:
  assumes "hexChannels s = Some (r, g, b)"
  shows "\<exists>s' r' g' b'. decodeColor (encodeColor (Some (Hex s))) = Some (Hex s')
          \<and> hexChannels s' = Some (r', g', b')
          \<and> r' \<le> r + 7 \<and> r \<le> r' + 7 \<and> g' \<le> g + 3 \<and> g \<le> g' + 3 \<and> b' \<le> b + 7 \<and> b \<le> b' + 7"
proof -
  obtain s' where s': "decodeColor (encodeColor (Some (Hex s))) = Some (Hex s')"
    "hexChannels s' = Some (8 * (r div 8) + r div 32, 4 * (g div 4) + g div 64, 8 * (b div 8) + b div 32)"
    using truecolor_roundtrip [OF assms] by blast
  have "r < 256" "g < 256" "b < 256" using hexChannels_bounds [OF assms] by simp_all
  then have "8 * (r div 8) + r div 32 \<le> r + 7" "r \<le> 8 * (r div 8) + r div 32 + 7"
    "4 * (g div 4) + g div 64 \<le> g + 3" "g \<le> 4 * (g div 4) + g div 64 + 3"
    "8 * (b div 8) + b div 32 \<le> b + 7" "b \<le> 8 * (b div 8) + b div 32 + 7"
    using chan5_bound [of r] chan6_bound [of g] chan5_bound [of b] by simp_all
  with s' show ?thesis by blast
qed

lemma tolerance_attained:
  "decodeColor (encodeColor (Some (Hex ''#070000''))) = Some (Hex ''#000000'')"
proof -
  have h: "hexChannels ''#070000'' = Some (7, 0, 0)" by (simp add: hex_eval)
  show ?thesis using decode_encode_hex [OF h] by (simp add: toString16_eval)
qed

subsection \<open>The 16-bit colour fields of a cell\<close>

text \<open>What the shifts and masks of \<open>packCell\<close>, \<open>unpackFgColor\<close> and \<open>unpackBgColor\<close> do to
  a colour code, as arithmetic.\<close>

lemma unat_of_nat_mod16: "unat ((word_of_nat g :: 32 word) mod 65536) = g mod 65536"
proof -
  have "unat ((word_of_nat g :: 32 word) mod 65536) = (g mod 2 ^ 32) mod 65536"
    by (simp add: unat_mod_distrib unat_of_nat take_bit_eq_mod)
  also have "\<dots> = g mod 65536"
    by (rule mod_mod_cancel) simp
  finally show ?thesis .
qed

lemma field_fg: "unat (drop_bit 16 (push_bit 16 (word_of_nat f :: 32 word)) AND 0xffff) = f mod 65536"
proof -
  have "drop_bit 16 (push_bit 16 (word_of_nat f :: 32 word)) AND mask 16 = take_bit 16 (word_of_nat f)"
    by (rule bit_word_eqI) (auto simp add: bit_simps)
  then have "unat (drop_bit 16 (push_bit 16 (word_of_nat f :: 32 word)) AND mask 16) = f mod 65536"
    by (simp add: take_bit_eq_mod unat_of_nat_mod16)
  then show ?thesis by (simp add: mask_eq_exp_minus_1)
qed

lemma field_bg: "unat ((word_of_nat g :: 32 word) AND 0xffff) = g mod 65536"
proof -
  have "unat ((word_of_nat g :: 32 word) AND mask 16) = g mod 65536"
    by (simp add: take_bit_eq_mod unat_of_nat_mod16 flip: take_bit_eq_mask)
  then show ?thesis by (simp add: mask_eq_exp_minus_1)
qed

lemma field_leak:
  assumes "g < 2 ^ 32"
  shows "unat (drop_bit 16 (word_of_nat g :: 32 word) AND 0xffff) = g div 65536"
proof -
  have u: "unat (word_of_nat g :: 32 word) = g"
    using assms by (simp add: unat_of_nat take_bit_eq_mod)
  have d: "unat (drop_bit 16 (word_of_nat g :: 32 word)) = g div 65536"
    by (simp add: drop_bit_eq_div unat_div_distrib u)
  have lt: "g div 65536 < 65536" using assms by simp
  have "unat (drop_bit 16 (word_of_nat g :: 32 word) AND mask 16) = (g div 65536) mod 65536"
    by (simp only: flip: take_bit_eq_mask) (simp add: take_bit_eq_mod unat_mod_distrib d)
  then show ?thesis using lt by (simp add: mask_eq_exp_minus_1)
qed


lemma encode_hex_value:
  assumes "hexChannels s = Some (r, g, b)"
  shows "encodeColor (Some (Hex s)) = 257 + 2048 * (r div 8) + 32 * (g div 4) + b div 8"
proof -
  have bnd: "r < 256" "g < 256" "b < 256" "s \<noteq> []"
    using hexChannels_bounds [OF assms] by simp_all
  have enc: "encodeColor (Some (Hex s)) = packRgbColor r g b"
    using assms bnd by (simp add: encodeColor_def)
  have d: "r div 8 < 32" "g div 4 < 64" "b div 8 < 32" using bnd by simp_all
  show ?thesis
    unfolding enc packRgbColor_def Let_def COLOR_RGB_START_def
    using d by (simp add: and_0x1f_mod and_0x3f_mod drop_bit_eq_div push_bit_eq_mult)
qed

text \<open>
  Claim C4.  The colour fields of a cell are 16 bits wide and the header of cell.ts gives
  the truecolour codes the range \<^verbatim>\<open>0x0101-0xFFFF\<close>, but \<open>packRgbColor\<close> adds
  \<open>COLOR_RGB_START\<close> to the full 16-bit 5-6-5 value, so the code of a bright colour does
  not fit.  For every \<^verbatim>\<open>#RRGGBB\<close> with red at least 248 and green at least 224 the code is
  \<open>0x10001 + p\<close> with \<open>p = 32 * (g div 4 - 56) + b div 8\<close>; stored as the foreground or the
  background of a cell it reads back as the palette colour \<open>p\<close>, not as a colour near the
  original, and stored as the background it makes the foreground of a cell that has
  none read back as palette colour 0.
\<close>

theorem bright_truecolor_overflows_colour_field:
  assumes "hexChannels s = Some (r, g, b)" and "248 \<le> r" and "224 \<le> g"
  shows "encodeColor (Some (Hex s)) = 0x10001 + (32 * (g div 4 - 56) + b div 8)
     \<and> unpackFgColor (packCell ch at (Some (Hex s)) None)
         = Some (Palette (32 * (g div 4 - 56) + b div 8))
     \<and> unpackBgColor (packCell ch at None (Some (Hex s)))
         = Some (Palette (32 * (g div 4 - 56) + b div 8))
     \<and> unpackFgColor (packCell ch at None (Some (Hex s))) = Some (Palette 0)"
proof -
  define p where "p = 32 * (g div 4 - 56) + b div 8"
  have bnd: "r < 256" "g < 256" "b < 256"
    using hexChannels_bounds [OF assms(1)] by simp_all
  have r5: "r div 8 = 31" using assms(2) bnd(1) by simp
  have g6: "56 \<le> g div 4" "g div 4 \<le> 63" using assms(3) bnd(2) by simp_all
  have b5: "b div 8 \<le> 31" using bnd(3) by simp
  have p: "p \<le> 255" unfolding p_def using g6 b5 by linarith
  have enc: "encodeColor (Some (Hex s)) = 65537 + p"
    unfolding encode_hex_value [OF assms(1)] r5 p_def using g6 by linarith
  have none: "encodeColor None = 0" by (simp add: encodeColor_def COLOR_NONE_def)
  have sp: "65537 + p = 1 * 65536 + (1 + p)" by simp
  have m: "(65537 + p) mod 65536 = 1 + p"
    unfolding sp using p by (simp only: mod_mult_self3) simp
  have dv: "(65537 + p) div 65536 = 1"
    using p by linarith
  have lt: "65537 + p < 2 ^ 32" using p by simp
  have dec: "decodeColor (1 + p) = Some (Palette p)"
    using p by (simp add: decodeColor_def COLOR_NONE_def COLOR_PALETTE_START_def)
  have fg: "unpackFgColor (packCell ch at (Some (Hex s)) None) = Some (Palette p)"
  proof -
    have "unpackFgColor (packCell ch at (Some (Hex s)) None)
          = decodeColor (unat (drop_bit 16 (push_bit 16 (word_of_nat (65537 + p) :: 32 word)) AND 0xffff))"
      by (simp add: unpackFgColor_def packCell_def Let_def enc none del: of_nat_add)
    then show ?thesis by (simp only: field_fg m dec)
  qed
  have bg: "unpackBgColor (packCell ch at None (Some (Hex s))) = Some (Palette p)"
  proof -
    have "unpackBgColor (packCell ch at None (Some (Hex s)))
          = decodeColor (unat ((word_of_nat (65537 + p) :: 32 word) AND 0xffff))"
      by (simp add: unpackBgColor_def packCell_def Let_def enc none del: of_nat_add)
    then show ?thesis by (simp only: field_bg m dec)
  qed
  have leak: "unpackFgColor (packCell ch at None (Some (Hex s))) = Some (Palette 0)"
  proof -
    have "unpackFgColor (packCell ch at None (Some (Hex s)))
          = decodeColor (unat (drop_bit 16 (word_of_nat (65537 + p) :: 32 word) AND 0xffff))"
      by (simp add: unpackFgColor_def packCell_def Let_def enc none del: of_nat_add)
    then have "unpackFgColor (packCell ch at None (Some (Hex s))) = decodeColor 1"
      by (simp only: field_leak [OF lt] dv)
    then show ?thesis
      by (simp add: decodeColor_def COLOR_NONE_def COLOR_PALETTE_START_def)
  qed
  show ?thesis using enc fg bg leak by (simp add: p_def)
qed

text \<open>For white: the code is \<open>0x10100\<close>, and white reads back as palette colour 255.\<close>

theorem bright_truecolor_overflow_witness:
  "hexChannels ''#ffffff'' = Some (255, 255, 255) \<and> (248::nat) \<le> 255 \<and> (224::nat) \<le> 255
   \<and> encodeColor (Some (Hex ''#ffffff'')) = 0x10100
   \<and> \<not> encodeColor (Some (Hex ''#ffffff'')) \<le> 0xFFFF
   \<and> unpackFgColor (packCell (str ''X'') 0 (Some (Hex ''#ffffff'')) None) = Some (Palette 255)
   \<and> unpackBgColor (packCell (str ''X'') 0 None (Some (Hex ''#ffffff''))) = Some (Palette 255)
   \<and> unpackFgColor (packCell (str ''X'') 0 None (Some (Hex ''#ffffff''))) = Some (Palette 0)"
proof -
  have h: "hexChannels ''#ffffff'' = Some (255, 255, 255)" by (simp add: hex_eval)
  from bright_truecolor_overflows_colour_field [OF h, of "str ''X''" 0] h
  show ?thesis by simp
qed

section \<open>Resize\<close>

lemma emptyCell_val: "emptyCell = (0x20, 0)"
  by (simp add: emptyCell_def packCellPart_def firstCodePoint_def str_def ATTR_SHIFT_def CHAR_MASK_def)

lemma emptyCell_fields:
  "unpackChar emptyCell = Inr (str '' '') \<and> unpackAttr emptyCell = 0
   \<and> unpackFgColor emptyCell = None \<and> unpackBgColor emptyCell = None"
  by (simp add: emptyCell_val unpackChar_def unpackAttr_def unpackFgColor_def unpackBgColor_def
      decodeColor_def COLOR_NONE_def CHAR_MASK_def ATTR_SHIFT_def str_def)

text \<open>
  Claim C7, as the code has it.  A call of \<open>resize\<close> whose dimensions differ from the
  current ones installs two fresh buffers of \<open>r * c\<close> empty cells (space, attribute 0,
  default colours) and marks every row dirty; a call with the current dimensions returns
  at once and changes nothing.
\<close>

theorem resize_reallocates_unless_same:
  "((r \<noteq> rows s \<or> c \<noteq> cols s) \<longrightarrow>
      rows (resize s r c) = r \<and> cols (resize s r c) = c \<and> size' (resize s r c) = r * c
      \<and> prev (resize s r c) = replicate (r * c) emptyCell
      \<and> curr (resize s r c) = replicate (r * c) emptyCell
      \<and> dirty (resize s r c) = replicate r 1)
   \<and> (r = rows s \<and> c = cols s \<longrightarrow> resize s r c = s)
   \<and> unpackChar emptyCell = Inr (str '' '') \<and> unpackAttr emptyCell = 0
   \<and> unpackFgColor emptyCell = None \<and> unpackBgColor emptyCell = None"
  using emptyCell_fields by (auto simp: resize_def Let_def)

lemma cellX_val: "packCell (str ''X'') 0 None None = (0x58, 0)"
  by (simp add: packCell_def firstCodePoint_def str_def ATTR_SHIFT_def CHAR_MASK_def encodeColor_def COLOR_NONE_def)

theorem resize_reallocates_witness:
  "(2 \<noteq> rows (newDiffEngine 1 1)
    \<and> curr (resize (newDiffEngine 1 1) 2 3) = replicate (2 * 3) emptyCell
    \<and> dirty (resize (newDiffEngine 1 1) 2 3) = replicate 2 1)
   \<and> (1 = rows (newDiffEngine 1 1) \<and> 1 = cols (newDiffEngine 1 1))
   \<and> resize (newDiffEngine 1 1) 1 1 = newDiffEngine 1 1"
proof -
  have a: "2 \<noteq> rows (newDiffEngine 1 1)"
    by (simp add: newDiffEngine_def)
  have b: "1 = rows (newDiffEngine 1 1) \<and> 1 = cols (newDiffEngine 1 1)"
    by (simp add: newDiffEngine_def)
  from resize_reallocates_unless_same [of 2 "newDiffEngine 1 1" 3] a
    resize_reallocates_unless_same [of 1 "newDiffEngine 1 1" 1] b
  show ?thesis by blast
qed

text \<open>
  Claim C7 as stated fails for a call with the current dimensions: the cell written
  before the call is still in the back buffer, and on a fresh engine the dirty flag stays
  clear.
\<close>

theorem resize_same_dimensions_counterexample:
  "curr (resize (setCell (newDiffEngine 1 1) 0 0 (packCell (str ''X'') 0 None None)) 1 1)
     = [packCell (str ''X'') 0 None None]
   \<and> packCell (str ''X'') 0 None None \<noteq> emptyCell
   \<and> dirty (resize (newDiffEngine 1 1) 1 1) = [0]"
  by (simp add: cellX_val emptyCell_val resize_def setCell_def newDiffEngine_def cellAt_def
      cellEquals_def markDirty_def Let_def)

section \<open>Terminal detection and the feature matrix\<close>

lemma detect_type_gated: "dtype (detectTerminalType env) = priorityType_gated env"
  by (simp add: detectTerminalType_def priorityType_gated_def byTermProgram_def
      byTermSubstring_gated_def byTmux_def bySSH_def Let_def)

lemma detect_flags:
  "isSSH (detectTerminalType env) = (orEmpty (SSH_CONNECTION env) \<noteq> [])
   \<and> isTmux (detectTerminalType env) = (orEmpty (TMUX env) \<noteq> [])"
  by (simp add: detectTerminalType_def Let_def)

lemma base_support_downgrade:
  "getBaseFeatureSupport t ssh tm f = downgrade_spec ssh tm f (TERMINAL_FEATURE_SUPPORT t f)"
  by (cases t; cases f; cases ssh; cases tm)
     (simp_all add: getBaseFeatureSupport_def downgrade_spec_def TERMINAL_FEATURE_SUPPORT_def Let_def)

text \<open>
  Claim C8, as the code has it.  The detected type follows the priority
  \<open>TERM_PROGRAM\<close>, \<open>TERM\<close> substring, tmux, SSH, unknown, where the \<open>TERM\<close> substrings
  \<open>kitty\<close> and \<open>ghostty\<close> count only when \<open>TERM_PROGRAM\<close> is unset or empty; the seeded
  matrix row is then downgraded: SSH takes Clipboard from Full to Partial and FocusEvents
  to none, tmux takes KittyKeyboard and FocusEvents to none.
\<close>

theorem detection_priority_and_downgrades:
  "dtype (detectTerminalType env) = priorityType_gated env
   \<and> terminalType (detectCapabilities env) = priorityType_gated env
   \<and> features (detectCapabilities env) f
       = downgrade_spec (orEmpty (SSH_CONNECTION env) \<noteq> []) (orEmpty (TMUX env) \<noteq> []) f
           (TERMINAL_FEATURE_SUPPORT (priorityType_gated env) f)"
  using detect_flags [of env]
  by (simp add: detectCapabilities_def Let_def detect_type_gated base_support_downgrade)

theorem detection_priority_witness:
  "dtype (detectTerminalType \<lparr>TERM' = Some ''xterm-256color'', TERM_PROGRAM = Some ''iTerm.app'',
       TERM_PROGRAM_VERSION = None, SSH_CONNECTION = Some ''10.0.0.1 22'', TMUX = None\<rparr>) = ITerm
   \<and> features (detectCapabilities \<lparr>TERM' = Some ''xterm-256color'', TERM_PROGRAM = Some ''iTerm.app'',
       TERM_PROGRAM_VERSION = None, SSH_CONNECTION = Some ''10.0.0.1 22'', TMUX = None\<rparr>) Clipboard = Partial
   \<and> features (detectCapabilities \<lparr>TERM' = Some ''xterm-256color'', TERM_PROGRAM = Some ''iTerm.app'',
       TERM_PROGRAM_VERSION = None, SSH_CONNECTION = Some ''10.0.0.1 22'', TMUX = None\<rparr>) FocusEvents = NoneLevel"
proof -
  let ?env = "\<lparr>TERM' = Some ''xterm-256color'', TERM_PROGRAM = Some ''iTerm.app'',
       TERM_PROGRAM_VERSION = None, SSH_CONNECTION = Some ''10.0.0.1 22'', TMUX = None\<rparr>"
  have p: "priorityType_gated ?env = ITerm"
    by (simp add: priorityType_gated_def byTermProgram_def toLowerCase_def orEmpty_def
        char_of_def bit_Suc_0_iff)
  from detection_priority_and_downgrades [of ?env Clipboard]
    detection_priority_and_downgrades [of ?env FocusEvents] p
  show ?thesis
    by (simp add: downgrade_spec_def TERMINAL_FEATURE_SUPPORT_def orEmpty_def)
qed

text \<open>
  Claim C8 as stated fails where \<open>TERM_PROGRAM\<close> is set to a name the code does not know
  and \<open>TERM\<close> contains \<open>kitty\<close>: the chain of the claim answers Kitty, the code Unknown.
\<close>

theorem detection_priority_counterexample:
  "dtype (detectTerminalType \<lparr>TERM' = Some ''xterm-kitty'', TERM_PROGRAM = Some ''vscode'',
       TERM_PROGRAM_VERSION = None, SSH_CONNECTION = None, TMUX = None\<rparr>) = Unknown
   \<and> priorityType_spec \<lparr>TERM' = Some ''xterm-kitty'', TERM_PROGRAM = Some ''vscode'',
       TERM_PROGRAM_VERSION = None, SSH_CONNECTION = None, TMUX = None\<rparr> = Kitty"
  by (simp add: detectTerminalType_def priorityType_spec_def byTermProgram_def byTermSubstring_def
      byTmux_def bySSH_def toLowerCase_def orEmpty_def Let_def)

section \<open>Input initialization\<close>

text \<open>The loop only appends to \<open>errors\<close>, and what it does to the state does not depend
  on the errors collected so far.\<close>

lemma processFeatures_shift:
  "processFeatures caps fs w errs
   = (fst (processFeatures caps fs w []), errs @ snd (processFeatures caps fs w []))"
proof (induction fs arbitrary: w errs)
  case Nil
  show ?case by simp
next
  case (Cons p rest)
  obtain name cfg where p: "p = (name, cfg)" by (cases p)
  obtain r w1 where ef: "enableFeature w name cfg = (r, w1)" by (cases "enableFeature w name cfg")
  have one: "processFeatures caps rest v (errs @ [m])
        = (fst (processFeatures caps rest v []), errs @ [m] @ snd (processFeatures caps rest v []))"
    for v m
    using Cons.IH [of v "errs @ [m]"] by simp
  have two: "processFeatures caps rest v [m]
        = (fst (processFeatures caps rest v []), [m] @ snd (processFeatures caps rest v []))"
    for v m
    using Cons.IH [of v "[m]"] by simp
  have zero: "processFeatures caps rest v errs
        = (fst (processFeatures caps rest v []), errs @ snd (processFeatures caps rest v []))"
    for v
    using Cons.IH [of v errs] .
  show ?case
    unfolding p
    by (cases r) (simp_all add: ef one two zero)
qed

lemma processFeatures_append:
  "processFeatures caps (xs @ ys) w errs
   = processFeatures caps ys (fst (processFeatures caps xs w errs)) (snd (processFeatures caps xs w errs))"
proof (induction xs arbitrary: w errs)
  case Nil
  show ?case by simp
next
  case (Cons p rest)
  obtain name cfg where p: "p = (name, cfg)" by (cases p)
  obtain r w1 where ef: "enableFeature w name cfg = (r, w1)" by (cases "enableFeature w name cfg")
  show ?case
    unfolding p
    by (cases r) (simp_all add: ef Cons.IH)
qed

lemma processFeatures_mono:
  "set errs \<subseteq> set (snd (processFeatures caps fs w errs))"
  by (subst processFeatures_shift) simp

text \<open>The step of the loop at one entry, by the three ways it can go.\<close>

lemma step_skipped:
  assumes "\<not> enabled cfg"
  shows "processFeatures caps ((name, cfg) # rest) w errs = processFeatures caps rest w errs"
  using assms by simp

lemma step_unsupported:
  assumes "unsupported caps (name, cfg)"
  shows "processFeatures caps ((name, cfg) # rest) w errs
         = processFeatures caps rest w
             (if required cfg then errs @ [unsupportedMessage name (terminalType caps)] else errs)"
  using assms by (simp add: unsupported_def)

lemma step_enabled:
  assumes "enabled cfg" "\<not> unsupported caps (name, cfg)" "enableFeature w name cfg = (None, w1)"
  shows "processFeatures caps ((name, cfg) # rest) w errs
         = processFeatures caps rest
             (w1\<lparr>terminalState := (terminalState w1)\<lparr>enabledFeatures :=
                    (enabledFeatures (terminalState w1))(name := True)\<rparr>\<rparr>) errs"
  using assms by (simp add: unsupported_def)

lemma step_failed:
  assumes "enabled cfg" "\<not> unsupported caps (name, cfg)" "enableFeature w name cfg = (Some e, w1)"
  shows "processFeatures caps ((name, cfg) # rest) w errs
         = processFeatures caps rest w1
             (if required cfg then errs @ [failedMessage name e] else errs)"
  using assms by (simp add: unsupported_def)

text \<open>The errors an entry adds, at the state the loop has reached before it.\<close>

lemma unsupported_required_reported:
  assumes "(name, cfg) \<in> set fs" "unsupported caps (name, cfg)" "required cfg"
  shows "unsupportedMessage name (terminalType caps) \<in> set (snd (processFeatures caps fs w errs))"
proof -
  obtain pre post where fs: "fs = pre @ (name, cfg) # post"
    using assms(1) by (auto simp add: in_set_conv_decomp)
  let ?w = "fst (processFeatures caps pre w errs)"
  let ?e = "snd (processFeatures caps pre w errs)"
  have "processFeatures caps fs w errs
        = processFeatures caps post ?w (?e @ [unsupportedMessage name (terminalType caps)])"
    unfolding fs processFeatures_append using step_unsupported [OF assms(2)] assms(3) by simp
  then show ?thesis
    using processFeatures_mono [of "?e @ [unsupportedMessage name (terminalType caps)]" caps post ?w]
    by simp
qed

lemma failed_required_reported:
  assumes "fs = pre @ (name, cfg) # post" "enabled cfg" "required cfg"
    and "\<not> unsupported caps (name, cfg)"
    and "fst (enableFeature (fst (processFeatures caps pre w [])) name cfg) = Some e"
  shows "failedMessage name e \<in> set (snd (processFeatures caps fs w errs))"
proof -
  let ?w = "fst (processFeatures caps pre w errs)"
  let ?e = "snd (processFeatures caps pre w errs)"
  have same: "?w = fst (processFeatures caps pre w [])"
    by (subst processFeatures_shift) simp
  obtain w1 where ef: "enableFeature ?w name cfg = (Some e, w1)"
    using assms(5) unfolding same by (cases "enableFeature (fst (processFeatures caps pre w [])) name cfg") simp
  have "processFeatures caps fs w errs
        = processFeatures caps post w1 (?e @ [failedMessage name e])"
    unfolding assms(1) processFeatures_append
    using step_failed [OF assms(2) assms(4) ef] assms(3) by simp
  then show ?thesis
    using processFeatures_mono [of "?e @ [failedMessage name e]" caps post w1]
    by simp
qed

text \<open>No error is collected exactly when every entry that is enabled and required is
  supported and has been enabled without an exception.\<close>

lemma no_errors_iff:
  "snd (processFeatures caps fs w []) = [] \<longleftrightarrow>
     (\<forall>pre name cfg post. fs = pre @ (name, cfg) # post \<and> enabled cfg \<and> required cfg
        \<longrightarrow> \<not> unsupported caps (name, cfg)
            \<and> fst (enableFeature (fst (processFeatures caps pre w [])) name cfg) = None)"
  (is "?L fs \<longleftrightarrow> ?R fs")
proof
  assume l: "?L fs"
  show "?R fs"
  proof (intro allI impI)
    fix pre name cfg post
    assume a: "fs = pre @ (name, cfg) # post \<and> enabled cfg \<and> required cfg"
    have in_fs: "(name, cfg) \<in> set fs" using a by simp
    have u: "\<not> unsupported caps (name, cfg)"
    proof
      assume "unsupported caps (name, cfg)"
      from unsupported_required_reported [OF in_fs this, of w "[]"] a l show False by simp
    qed
    have "fst (enableFeature (fst (processFeatures caps pre w [])) name cfg) = None"
    proof (cases "fst (enableFeature (fst (processFeatures caps pre w [])) name cfg)")
      case None
      then show ?thesis .
    next
      case (Some e)
      from failed_required_reported [where fs = fs and post = post and errs = "[]", OF _ _ _ u Some] a l
      show ?thesis by simp
    qed
    with u show "\<not> unsupported caps (name, cfg)
            \<and> fst (enableFeature (fst (processFeatures caps pre w [])) name cfg) = None" by simp
  qed
next
  show "?R fs \<Longrightarrow> ?L fs"
  proof (induction fs rule: rev_induct)
    case Nil
    show ?case by simp
  next
    case (snoc p ys)
    obtain name cfg where p: "p = (name, cfg)" by (cases p)
    have r_ys: "?R ys"
    proof (intro allI impI)
      fix pre n c post
      assume a: "ys = pre @ (n, c) # post \<and> enabled c \<and> required c"
      then have "ys @ [p] = pre @ (n, c) # (post @ [p])" by simp
      with snoc.prems a show "\<not> unsupported caps (n, c)
            \<and> fst (enableFeature (fst (processFeatures caps pre w [])) n c) = None" by blast
    qed
    have l_ys: "snd (processFeatures caps ys w []) = []" using snoc.IH [OF r_ys] .
    let ?w = "fst (processFeatures caps ys w [])"
    have run: "processFeatures caps (ys @ [p]) w [] = processFeatures caps [(name, cfg)] ?w []"
      unfolding processFeatures_append l_ys p ..
    show ?case
    proof (cases "enabled cfg \<and> required cfg")
      case True
      have "ys @ [p] = ys @ (name, cfg) # []" using p by simp
      with snoc.prems True have u: "\<not> unsupported caps (name, cfg)"
        and e: "fst (enableFeature ?w name cfg) = None" by blast+
      obtain w1 where ef: "enableFeature ?w name cfg = (None, w1)"
        using e by (cases "enableFeature ?w name cfg") simp
      show ?thesis unfolding run using step_enabled [OF _ u ef, of "[]" "[]"] True by simp
    next
      case False
      obtain r w1 where ef: "enableFeature ?w name cfg = (r, w1)" by (cases "enableFeature ?w name cfg")
      show ?thesis unfolding run using False by (cases r) (auto simp add: ef)
    qed
  qed
qed

text \<open>Unsupported entries are skipped: the state the loop ends in is the one it ends in
  without them, and so are the errors when none of them is required.\<close>

lemma unsupported_skipped_state:
  "fst (processFeatures caps fs w errs)
   = fst (processFeatures caps (filter (\<lambda>p. \<not> unsupported caps p) fs) w errs)"
proof (induction fs arbitrary: w errs)
  case Nil
  show ?case by simp
next
  case (Cons p rest)
  obtain name cfg where p: "p = (name, cfg)" by (cases p)
  show ?case
  proof (cases "unsupported caps (name, cfg)")
    case True
    have "fst (processFeatures caps ((name, cfg) # rest) w errs) = fst (processFeatures caps rest w errs)"
      unfolding step_unsupported [OF True]
      by (subst processFeatures_shift, subst (2) processFeatures_shift) simp
    then show ?thesis unfolding p using True Cons.IH by simp
  next
    case False
    obtain r w1 where ef: "enableFeature w name cfg = (r, w1)" by (cases "enableFeature w name cfg")
    show ?thesis
      unfolding p using False
      by (cases r) (simp_all add: ef Cons.IH unsupported_def)
  qed
qed

lemma unsupported_optional_skipped:
  assumes "\<forall>p \<in> set fs. unsupported caps p \<longrightarrow> \<not> required (snd p)"
  shows "processFeatures caps fs w errs
         = processFeatures caps (filter (\<lambda>p. \<not> unsupported caps p) fs) w errs"
  using assms
proof (induction fs arbitrary: w errs)
  case Nil
  show ?case by simp
next
  case (Cons p rest)
  obtain name cfg where p: "p = (name, cfg)" by (cases p)
  have rest: "\<forall>p \<in> set rest. unsupported caps p \<longrightarrow> \<not> required (snd p)"
    using Cons.prems by simp
  note IH = Cons.IH [OF rest]
  show ?case
  proof (cases "unsupported caps (name, cfg)")
    case True
    then have "\<not> required cfg" using Cons.prems p by simp
    then show ?thesis unfolding p using True IH step_unsupported [OF True] by simp
  next
    case False
    obtain r w1 where ef: "enableFeature w name cfg = (r, w1)" by (cases "enableFeature w name cfg")
    show ?thesis
      unfolding p using False
      by (cases r) (simp_all add: ef IH unsupported_def)
  qed
qed

text \<open>With a quiet writer nothing that writes to the terminal throws.\<close>

lemma bufferFlush_quiet:
  assumes "list_all (\<lambda>outcome. outcome = None) (writer b)"
  shows "fst (bufferFlush b) = None \<and> list_all (\<lambda>outcome. outcome = None) (writer (snd (bufferFlush b)))"
proof (cases "writer b")
  case Nil
  then show ?thesis by (simp add: bufferFlush_def)
next
  case (Cons a later)
  then have "a = None" "list_all (\<lambda>outcome. outcome = None) later" using assms by simp_all
  then show ?thesis using Cons assms by (simp add: bufferFlush_def)
qed

lemma bufferWrite_quiet:
  assumes "list_all (\<lambda>outcome. outcome = None) (writer b)"
  shows "fst (bufferWrite b d) = None \<and> list_all (\<lambda>outcome. outcome = None) (writer (snd (bufferWrite b d)))"
proof -
  obtain r b1 where f: "bufferFlush b = (r, b1)" by (cases "bufferFlush b")
  have "r = None" "list_all (\<lambda>outcome. outcome = None) (writer b1)"
    using bufferFlush_quiet [OF assms] f by simp_all
  then show ?thesis using assms f by (simp add: bufferWrite_def)
qed

lemma termWrite_quiet:
  assumes "quiet w"
  shows "fst (termWrite w d) = None \<and> quiet (snd (termWrite w d))"
proof -
  obtain r b where f: "bufferWrite (out w) d = (r, b)" by (cases "bufferWrite (out w) d")
  show ?thesis
    using bufferWrite_quiet [of "out w" d] assms f by (simp add: termWrite_def quiet_def)
qed

lemma termFlush_quiet:
  assumes "quiet w"
  shows "fst (termFlush w) = None \<and> quiet (snd (termFlush w))"
proof -
  obtain r b where f: "bufferFlush (out w) = (r, b)" by (cases "bufferFlush (out w)")
  show ?thesis
    using bufferFlush_quiet [of "out w"] assms f by (simp add: termFlush_def quiet_def)
qed

lemma thenDo_quiet:
  assumes "fst r = None \<and> quiet (snd r)"
    and "\<And>v. quiet v \<Longrightarrow> fst (f v) = None \<and> quiet (snd (f v))"
  shows "fst (thenDo r f) = None \<and> quiet (snd (thenDo r f))"
proof -
  obtain a v where r: "r = (a, v)" by (cases r)
  with assms(1) have "a = None" "quiet v" by simp_all
  then show ?thesis using assms(2) [of v] r by (simp add: thenDo_def)
qed

lemma return_quiet:
  assumes "quiet v"
  shows "fst (None, v\<lparr>terminalState := t\<rparr>) = None \<and> quiet (snd (None, v\<lparr>terminalState := t\<rparr>))"
  using assms by (simp add: quiet_def)

lemma skip_quiet:
  assumes "quiet v"
  shows "fst (None :: string option, v) = None \<and> quiet (snd (None :: string option, v))"
  using assms by simp

lemma if_quiet:
  assumes "fst a = None \<and> quiet (snd a)" "fst b = None \<and> quiet (snd b)"
  shows "fst (if c then a else b) = None \<and> quiet (snd (if c then a else b))"
  using assms by simp

lemmas quiet_steps =
  thenDo_quiet termWrite_quiet termFlush_quiet return_quiet skip_quiet if_quiet

lemma disableMouse_quiet:
  assumes "quiet w"
  shows "fst (disableMouse w) = None \<and> quiet (snd (disableMouse w))"
  unfolding disableMouse_def using assms by (intro quiet_steps)

lemma enableMouse_quiet:
  assumes "quiet w"
  shows "fst (enableMouse w proto allM) = None \<and> quiet (snd (enableMouse w proto allM))"
  unfolding enableMouse_def using assms by (intro quiet_steps disableMouse_quiet)

lemma pushKittyKeyboard_quiet:
  assumes "quiet w"
  shows "fst (pushKittyKeyboard w fl) = None \<and> quiet (snd (pushKittyKeyboard w fl))"
  unfolding pushKittyKeyboard_def Let_def using assms by (intro quiet_steps)

lemma enableBracketedPaste_quiet:
  assumes "quiet w"
  shows "fst (enableBracketedPaste w) = None \<and> quiet (snd (enableBracketedPaste w))"
  unfolding enableBracketedPaste_def using assms by (intro quiet_steps)

lemma enableFocusEvents_quiet:
  assumes "quiet w"
  shows "fst (enableFocusEvents w) = None \<and> quiet (snd (enableFocusEvents w))"
  unfolding enableFocusEvents_def using assms by (intro quiet_steps)

lemma enableFeature_quiet:
  assumes "quiet w" "featureOfName name \<noteq> None"
  shows "fst (enableFeature w name cfg) = None \<and> quiet (snd (enableFeature w name cfg))"
proof -
  obtain f where f: "featureOfName name = Some f" using assms(2) by auto
  show ?thesis
    unfolding enableFeature_def f
    using assms(1)
    by (cases f)
      (simp_all add: enableMouse_quiet pushKittyKeyboard_quiet enableBracketedPaste_quiet
         enableFocusEvents_quiet)
qed

lemma processFeatures_quiet:
  assumes "quiet w" "\<forall>p \<in> set fs. featureOfName (fst p) \<noteq> None"
  shows "quiet (fst (processFeatures caps fs w errs))"
  using assms
proof (induction fs arbitrary: w errs)
  case Nil
  then show ?case by simp
next
  case (Cons p rest)
  obtain name cfg where p: "p = (name, cfg)" by (cases p)
  have known: "featureOfName name \<noteq> None" and rest: "\<forall>p \<in> set rest. featureOfName (fst p) \<noteq> None"
    using Cons.prems(2) p by simp_all
  obtain r w1 where ef: "enableFeature w name cfg = (r, w1)" by (cases "enableFeature w name cfg")
  have q: "r = None" "quiet w1"
    using enableFeature_quiet [OF Cons.prems(1) known, of cfg] ef by simp_all
  have q1: "quiet (w1\<lparr>terminalState := t\<rparr>)" for t using q(2) by (simp add: quiet_def)
  show ?case
    unfolding p using q(1) by (simp add: ef Cons.IH [OF Cons.prems(1) rest] Cons.IH [OF q1 rest])
qed

lemma storeSupported_keeps:
  "rawMode (terminalState (storeSupported caps ov w)) = rawMode (terminalState w)"
  "out (storeSupported caps ov w) = out w"
  by (simp_all add: storeSupported_def Let_def)

lemma loopStart_quiet: "quiet (loopStart w x caps ov) = quiet w"
  by (simp add: loopStart_def enableRawMode_def quiet_def storeSupported_keeps)

lemma initializeInput_raw_failed:
  assumes "\<not> rawModeWorks w x"
  shows "initializeInput w x caps ov fs
         = (Inl ''Error: Failed to enable raw mode'', storeSupported caps ov w)"
  using assms
  by (simp add: initializeInput_def enableRawMode_def rawModeWorks_def storeSupported_keeps)

lemma initializeInput_loop:
  assumes "rawModeWorks w x"
  shows "initializeInput w x caps ov fs
         = (if snd (processFeatures caps fs (loopStart w x caps ov) []) \<noteq> []
            then (Inl (failureHeader @ joinStrings [CHR 0x0a]
                         (snd (processFeatures caps fs (loopStart w x caps ov) []))),
                  fst (processFeatures caps fs (loopStart w x caps ov) []))
            else (Inr (getInputStatus (fst (processFeatures caps fs (loopStart w x caps ov) []))),
                  fst (processFeatures caps fs (loopStart w x caps ov) [])))"
proof -
  obtain w' errors where pf: "processFeatures caps fs (loopStart w x caps ov) [] = (w', errors)"
    by (cases "processFeatures caps fs (loopStart w x caps ov) []")
  have raw: "enableRawMode (storeSupported caps ov w) x = (None, loopStart w x caps ov)"
    using assms
    by (auto simp add: loopStart_def enableRawMode_def rawModeWorks_def storeSupported_keeps)
  show ?thesis
    by (simp add: initializeInput_def raw pf failureHeader_def)
qed

text \<open>
  Claim C9, as the code has it.  When raw mode cannot be enabled, initialization fails
  with that error before any feature is looked at.  Otherwise: an enabled, required
  feature that is unsupported makes it fail with a line that names the feature and the
  terminal type; an enabled, required, supported feature whose enabling throws makes it
  fail with a line that names the feature and the error; and it succeeds exactly when
  raw mode can be enabled and neither happens.  With a writer that does not throw and
  feature names among the five known ones, that is exactly when no unsupported feature is
  required.  Unsupported features are skipped: the state reached is the state reached
  without them, and when none of them is required so is the result.
\<close>

theorem initializeInput_outcomes:
  "(\<not> rawModeWorks w x \<longrightarrow>
      initializeInput w x caps ov fs
      = (Inl ''Error: Failed to enable raw mode'', storeSupported caps ov w))
   \<and> (rawModeWorks w x \<and> (name, cfg) \<in> set fs \<and> unsupported caps (name, cfg) \<and> required cfg \<longrightarrow>
        (\<exists>errors. fst (initializeInput w x caps ov fs)
                    = Inl (failureHeader @ joinStrings [CHR 0x0a] errors)
           \<and> unsupportedMessage name (terminalType caps) \<in> set errors))
   \<and> (rawModeWorks w x \<and> fs = pre @ (name, cfg) # post \<and> enabled cfg \<and> required cfg
        \<and> \<not> unsupported caps (name, cfg)
        \<and> fst (enableFeature (fst (processFeatures caps pre (loopStart w x caps ov) [])) name cfg)
            = Some e \<longrightarrow>
        (\<exists>errors. fst (initializeInput w x caps ov fs)
                    = Inl (failureHeader @ joinStrings [CHR 0x0a] errors)
           \<and> failedMessage name e \<in> set errors))
   \<and> ((\<exists>m. fst (initializeInput w x caps ov fs) = Inr m) \<longleftrightarrow>
        rawModeWorks w x
        \<and> (\<forall>pre name cfg post. fs = pre @ (name, cfg) # post \<and> enabled cfg \<and> required cfg \<longrightarrow>
              \<not> unsupported caps (name, cfg)
              \<and> fst (enableFeature (fst (processFeatures caps pre (loopStart w x caps ov) [])) name cfg)
                  = None))
   \<and> (rawModeWorks w x \<and> quiet w \<and> (\<forall>p \<in> set fs. featureOfName (fst p) \<noteq> None) \<longrightarrow>
        ((\<exists>m. fst (initializeInput w x caps ov fs) = Inr m) \<longleftrightarrow>
           (\<forall>p \<in> set fs. unsupported caps p \<longrightarrow> \<not> required (snd p))))
   \<and> snd (initializeInput w x caps ov fs)
       = snd (initializeInput w x caps ov (filter (\<lambda>p. \<not> unsupported caps p) fs))
   \<and> ((\<forall>p \<in> set fs. unsupported caps p \<longrightarrow> \<not> required (snd p)) \<longrightarrow>
        initializeInput w x caps ov fs
        = initializeInput w x caps ov (filter (\<lambda>p. \<not> unsupported caps p) fs))"
proof -
  let ?s = "loopStart w x caps ov"
  let ?errs = "snd (processFeatures caps fs ?s [])"
  let ?split = "\<forall>pre name cfg post. fs = pre @ (name, cfg) # post \<and> enabled cfg \<and> required cfg \<longrightarrow>
              \<not> unsupported caps (name, cfg)
              \<and> fst (enableFeature (fst (processFeatures caps pre ?s [])) name cfg) = None"
  have c1: "\<not> rawModeWorks w x \<longrightarrow>
      initializeInput w x caps ov fs
      = (Inl ''Error: Failed to enable raw mode'', storeSupported caps ov w)"
    using initializeInput_raw_failed by blast
  have fails: "fst (initializeInput w x caps ov fs) = Inl (failureHeader @ joinStrings [CHR 0x0a] ?errs)"
    if "rawModeWorks w x" "m \<in> set ?errs" for m
  proof -
    have "?errs \<noteq> []" using that(2) by auto
    then show ?thesis unfolding initializeInput_loop [OF that(1)] by simp
  qed
  have c2: "rawModeWorks w x \<and> (name, cfg) \<in> set fs \<and> unsupported caps (name, cfg) \<and> required cfg \<longrightarrow>
        (\<exists>errors. fst (initializeInput w x caps ov fs)
                    = Inl (failureHeader @ joinStrings [CHR 0x0a] errors)
           \<and> unsupportedMessage name (terminalType caps) \<in> set errors)"
  proof
    assume a: "rawModeWorks w x \<and> (name, cfg) \<in> set fs \<and> unsupported caps (name, cfg) \<and> required cfg"
    then have m: "unsupportedMessage name (terminalType caps) \<in> set ?errs"
      using unsupported_required_reported by blast
    from fails [OF _ m] a m
    show "\<exists>errors. fst (initializeInput w x caps ov fs)
                    = Inl (failureHeader @ joinStrings [CHR 0x0a] errors)
           \<and> unsupportedMessage name (terminalType caps) \<in> set errors" by blast
  qed
  have c3: "rawModeWorks w x \<and> fs = pre @ (name, cfg) # post \<and> enabled cfg \<and> required cfg
        \<and> \<not> unsupported caps (name, cfg)
        \<and> fst (enableFeature (fst (processFeatures caps pre ?s [])) name cfg) = Some e \<longrightarrow>
        (\<exists>errors. fst (initializeInput w x caps ov fs)
                    = Inl (failureHeader @ joinStrings [CHR 0x0a] errors)
           \<and> failedMessage name e \<in> set errors)"
  proof
    assume a: "rawModeWorks w x \<and> fs = pre @ (name, cfg) # post \<and> enabled cfg \<and> required cfg
        \<and> \<not> unsupported caps (name, cfg)
        \<and> fst (enableFeature (fst (processFeatures caps pre ?s [])) name cfg) = Some e"
    then have m: "failedMessage name e \<in> set ?errs"
      using failed_required_reported [of fs pre name cfg post caps ?s e "[]"] by blast
    from fails [OF _ m] a m
    show "\<exists>errors. fst (initializeInput w x caps ov fs)
                    = Inl (failureHeader @ joinStrings [CHR 0x0a] errors)
           \<and> failedMessage name e \<in> set errors" by blast
  qed
  have c4: "(\<exists>m. fst (initializeInput w x caps ov fs) = Inr m) \<longleftrightarrow> rawModeWorks w x \<and> ?split"
  proof (cases "rawModeWorks w x")
    case False
    then show ?thesis using initializeInput_raw_failed [OF False, of caps ov fs] by simp
  next
    case True
    have "(\<exists>m. fst (initializeInput w x caps ov fs) = Inr m) \<longleftrightarrow> ?errs = []"
      unfolding initializeInput_loop [OF True] by simp
    then show ?thesis using True no_errors_iff [of caps fs ?s] by simp
  qed
  have c5: "rawModeWorks w x \<and> quiet w \<and> (\<forall>p \<in> set fs. featureOfName (fst p) \<noteq> None) \<longrightarrow>
        ((\<exists>m. fst (initializeInput w x caps ov fs) = Inr m) \<longleftrightarrow>
           (\<forall>p \<in> set fs. unsupported caps p \<longrightarrow> \<not> required (snd p)))"
  proof
    assume a: "rawModeWorks w x \<and> quiet w \<and> (\<forall>p \<in> set fs. featureOfName (fst p) \<noteq> None)"
    have q: "quiet ?s" using a loopStart_quiet by simp
    have "?split \<longleftrightarrow> (\<forall>p \<in> set fs. unsupported caps p \<longrightarrow> \<not> required (snd p))"
    proof
      assume s: ?split
      show "\<forall>p \<in> set fs. unsupported caps p \<longrightarrow> \<not> required (snd p)"
      proof (intro ballI impI)
        fix p assume p: "p \<in> set fs" "unsupported caps p"
        obtain n c where nc: "p = (n, c)" by (cases p)
        obtain pre post where "fs = pre @ (n, c) # post"
          using p(1) nc by (auto simp add: in_set_conv_decomp)
        moreover have "enabled c" using p(2) nc by (simp add: unsupported_def)
        ultimately show "\<not> required (snd p)" using s p(2) nc by auto
      qed
    next
      assume u: "\<forall>p \<in> set fs. unsupported caps p \<longrightarrow> \<not> required (snd p)"
      show ?split
      proof (intro allI impI)
        fix pre n c post
        assume b: "fs = pre @ (n, c) # post \<and> enabled c \<and> required c"
        then have "(n, c) \<in> set fs" by simp
        with u b have 1: "\<not> unsupported caps (n, c)" by auto
        have kn: "featureOfName n \<noteq> None" using a \<open>(n, c) \<in> set fs\<close> by auto
        have "\<forall>p \<in> set pre. featureOfName (fst p) \<noteq> None" using a b by auto
        then have "quiet (fst (processFeatures caps pre ?s []))"
          using processFeatures_quiet [OF q] by blast
        then have 2: "fst (enableFeature (fst (processFeatures caps pre ?s [])) n c) = None"
          using enableFeature_quiet [OF _ kn] by blast
        from 1 2 show "\<not> unsupported caps (n, c)
              \<and> fst (enableFeature (fst (processFeatures caps pre ?s [])) n c) = None" by simp
      qed
    qed
    with c4 a show "(\<exists>m. fst (initializeInput w x caps ov fs) = Inr m) \<longleftrightarrow>
           (\<forall>p \<in> set fs. unsupported caps p \<longrightarrow> \<not> required (snd p))" by simp
  qed
  have c6: "snd (initializeInput w x caps ov fs)
       = snd (initializeInput w x caps ov (filter (\<lambda>p. \<not> unsupported caps p) fs))"
  proof (cases "rawModeWorks w x")
    case False
    show ?thesis unfolding initializeInput_raw_failed [OF False] by simp
  next
    case True
    show ?thesis
      unfolding initializeInput_loop [OF True]
      using unsupported_skipped_state [of caps fs ?s "[]"] by simp
  qed
  have c7: "(\<forall>p \<in> set fs. unsupported caps p \<longrightarrow> \<not> required (snd p)) \<longrightarrow>
        initializeInput w x caps ov fs
        = initializeInput w x caps ov (filter (\<lambda>p. \<not> unsupported caps p) fs)"
  proof
    assume u: "\<forall>p \<in> set fs. unsupported caps p \<longrightarrow> \<not> required (snd p)"
    show "initializeInput w x caps ov fs
        = initializeInput w x caps ov (filter (\<lambda>p. \<not> unsupported caps p) fs)"
    proof (cases "rawModeWorks w x")
      case False
      show ?thesis unfolding initializeInput_raw_failed [OF False] by simp
    next
      case True
      show ?thesis
        unfolding initializeInput_loop [OF True]
        using unsupported_optional_skipped [OF u, of ?s "[]"] by simp
    qed
  qed
  from c1 c2 c3 c4 c5 c6 c7 show ?thesis by (intro conjI)
qed

lemmas capability_eval =
  unsupported_def isFeatureSupported_def featureLevel_def featureOfName_def minLevelOf_def
  plainCapabilities_def plainConfig_def getBaseFeatureSupport_def TERMINAL_FEATURE_SUPPORT_def

lemmas world_eval =
  world0_def terminalState0_def newOutputBuffer_def rawModeWorks_def quiet_def

theorem initializeInput_outcomes_witness:
  "\<not> rawModeWorks world0 1
   \<and> initializeInput world0 1 (plainCapabilities Kitty) [] [(''kittyKeyboard'', plainConfig True)]
       = (Inl ''Error: Failed to enable raw mode'', storeSupported (plainCapabilities Kitty) [] world0)
   \<and> rawModeWorks world0 0
   \<and> unsupported (plainCapabilities ITerm) (''kittyKeyboard'', plainConfig True)
   \<and> (\<exists>errors. fst (initializeInput world0 0 (plainCapabilities ITerm) []
                       [(''mouseTracking'', plainConfig False), (''kittyKeyboard'', plainConfig True)])
                 = Inl (failureHeader @ joinStrings [CHR 0x0a] errors)
         \<and> unsupportedMessage ''kittyKeyboard'' ITerm \<in> set errors)
   \<and> \<not> unsupported (plainCapabilities Kitty) (''hyperlinks'', (plainConfig True)\<lparr>minLevel := Some NoneLevel\<rparr>)
   \<and> (\<exists>errors. fst (initializeInput world0 0 (plainCapabilities Kitty) []
                       [(''hyperlinks'', (plainConfig True)\<lparr>minLevel := Some NoneLevel\<rparr>)])
                 = Inl (failureHeader @ joinStrings [CHR 0x0a] errors)
         \<and> failedMessage ''hyperlinks'' ''Error: Unknown feature: hyperlinks'' \<in> set errors)
   \<and> quiet world0
   \<and> (\<exists>m. fst (initializeInput world0 0 (plainCapabilities ITerm) []
                  [(''kittyKeyboard'', plainConfig False), (''bracketedPaste'', plainConfig True)]) = Inr m)
   \<and> initializeInput world0 0 (plainCapabilities ITerm) []
        [(''kittyKeyboard'', plainConfig False), (''bracketedPaste'', plainConfig True)]
      = initializeInput world0 0 (plainCapabilities ITerm) [] [(''bracketedPaste'', plainConfig True)]"
proof -
  let ?unknown = "(plainConfig True)\<lparr>minLevel := Some NoneLevel\<rparr>"
  let ?fs = "[(''kittyKeyboard'', plainConfig False), (''bracketedPaste'', plainConfig True)]"
  have h1: "\<not> rawModeWorks world0 1" by (simp add: world_eval)
  have h2: "rawModeWorks world0 0" by (simp add: world_eval)
  have h3: "unsupported (plainCapabilities ITerm) (''kittyKeyboard'', plainConfig True)"
    by (simp add: capability_eval)
  have h4: "\<not> unsupported (plainCapabilities Kitty) (''hyperlinks'', ?unknown)"
    by (simp add: capability_eval)
  have h5: "fst (enableFeature
              (fst (processFeatures (plainCapabilities Kitty) [] (loopStart world0 0 (plainCapabilities Kitty) []) []))
              ''hyperlinks'' ?unknown) = Some ''Error: Unknown feature: hyperlinks''"
    by (simp add: enableFeature_def featureOfName_def)
  have h6: "quiet world0" by (simp add: world_eval)
  have h7: "\<forall>p \<in> set ?fs. featureOfName (fst p) \<noteq> None" by (simp add: featureOfName_def)
  have h8: "\<forall>p \<in> set ?fs. unsupported (plainCapabilities ITerm) p \<longrightarrow> \<not> required (snd p)"
    by (simp add: capability_eval)
  have h9: "filter (\<lambda>p. \<not> unsupported (plainCapabilities ITerm) p) ?fs = [(''bracketedPaste'', plainConfig True)]"
    by (simp add: capability_eval)
  have e1: "enabled (plainConfig True)" "required (plainConfig True)" "enabled ?unknown" "required ?unknown"
    by (simp_all add: plainConfig_def)
  note t1 = initializeInput_outcomes [of world0 1 "plainCapabilities Kitty" "[]"
      "[(''kittyKeyboard'', plainConfig True)]"]
  note t2 = initializeInput_outcomes [of world0 0 "plainCapabilities ITerm" "[]"
      "[(''mouseTracking'', plainConfig False), (''kittyKeyboard'', plainConfig True)]"
      "''kittyKeyboard''" "plainConfig True"]
  note t3 = initializeInput_outcomes [of world0 0 "plainCapabilities Kitty" "[]"
      "[(''hyperlinks'', ?unknown)]" "''hyperlinks''" ?unknown "[]" "[]"
      "''Error: Unknown feature: hyperlinks''"]
  note t4 = initializeInput_outcomes [of world0 0 "plainCapabilities ITerm" "[]" ?fs]
  have r1: "initializeInput world0 1 (plainCapabilities Kitty) [] [(''kittyKeyboard'', plainConfig True)]
       = (Inl ''Error: Failed to enable raw mode'', storeSupported (plainCapabilities Kitty) [] world0)"
    using t1 [THEN conjunct1] h1 by simp
  have r2: "\<exists>errors. fst (initializeInput world0 0 (plainCapabilities ITerm) []
                       [(''mouseTracking'', plainConfig False), (''kittyKeyboard'', plainConfig True)])
                 = Inl (failureHeader @ joinStrings [CHR 0x0a] errors)
         \<and> unsupportedMessage ''kittyKeyboard'' ITerm \<in> set errors"
  proof -
    have tt: "terminalType (plainCapabilities ITerm) = ITerm" by (simp add: plainCapabilities_def)
    have "rawModeWorks world0 0
        \<and> (''kittyKeyboard'', plainConfig True)
            \<in> set [(''mouseTracking'', plainConfig False), (''kittyKeyboard'', plainConfig True)]
        \<and> unsupported (plainCapabilities ITerm) (''kittyKeyboard'', plainConfig True)
        \<and> required (plainConfig True) \<longrightarrow>
      (\<exists>errors. fst (initializeInput world0 0 (plainCapabilities ITerm) []
                       [(''mouseTracking'', plainConfig False), (''kittyKeyboard'', plainConfig True)])
                 = Inl (failureHeader @ joinStrings [CHR 0x0a] errors)
         \<and> unsupportedMessage ''kittyKeyboard'' (terminalType (plainCapabilities ITerm)) \<in> set errors)"
      by (rule t2 [THEN conjunct2, THEN conjunct1])
    then show ?thesis unfolding tt using h2 h3 e1 by simp
  qed
  have r3: "\<exists>errors. fst (initializeInput world0 0 (plainCapabilities Kitty) []
                       [(''hyperlinks'', ?unknown)])
                 = Inl (failureHeader @ joinStrings [CHR 0x0a] errors)
         \<and> failedMessage ''hyperlinks'' ''Error: Unknown feature: hyperlinks'' \<in> set errors"
  proof -
    have "rawModeWorks world0 0
        \<and> [(''hyperlinks'', ?unknown)] = [] @ (''hyperlinks'', ?unknown) # []
        \<and> enabled ?unknown \<and> required ?unknown
        \<and> \<not> unsupported (plainCapabilities Kitty) (''hyperlinks'', ?unknown)
        \<and> fst (enableFeature
              (fst (processFeatures (plainCapabilities Kitty) [] (loopStart world0 0 (plainCapabilities Kitty) []) []))
              ''hyperlinks'' ?unknown) = Some ''Error: Unknown feature: hyperlinks'' \<longrightarrow>
      (\<exists>errors. fst (initializeInput world0 0 (plainCapabilities Kitty) []
                       [(''hyperlinks'', ?unknown)])
                 = Inl (failureHeader @ joinStrings [CHR 0x0a] errors)
         \<and> failedMessage ''hyperlinks'' ''Error: Unknown feature: hyperlinks'' \<in> set errors)"
      by (rule t3 [THEN conjunct2, THEN conjunct2, THEN conjunct1])
    then show ?thesis using h2 h4 h5 e1 by simp
  qed
  have r4: "\<exists>m. fst (initializeInput world0 0 (plainCapabilities ITerm) [] ?fs) = Inr m"
  proof -
    have "rawModeWorks world0 0 \<and> quiet world0 \<and> (\<forall>p \<in> set ?fs. featureOfName (fst p) \<noteq> None) \<longrightarrow>
        ((\<exists>m. fst (initializeInput world0 0 (plainCapabilities ITerm) [] ?fs) = Inr m) \<longleftrightarrow>
           (\<forall>p \<in> set ?fs. unsupported (plainCapabilities ITerm) p \<longrightarrow> \<not> required (snd p)))"
      by (rule t4 [THEN conjunct2, THEN conjunct2, THEN conjunct2, THEN conjunct2, THEN conjunct1])
    then show ?thesis using h2 h6 h7 h8 by blast
  qed
  have r5: "initializeInput world0 0 (plainCapabilities ITerm) [] ?fs
      = initializeInput world0 0 (plainCapabilities ITerm) [] [(''bracketedPaste'', plainConfig True)]"
  proof -
    have "(\<forall>p \<in> set ?fs. unsupported (plainCapabilities ITerm) p \<longrightarrow> \<not> required (snd p)) \<longrightarrow>
        initializeInput world0 0 (plainCapabilities ITerm) [] ?fs
        = initializeInput world0 0 (plainCapabilities ITerm) []
            (filter (\<lambda>p. \<not> unsupported (plainCapabilities ITerm) p) ?fs)"
      by (rule t4 [THEN conjunct2, THEN conjunct2, THEN conjunct2, THEN conjunct2, THEN conjunct2, THEN conjunct2])
    then show ?thesis using h8 unfolding h9 by blast
  qed
  from h1 r1 h2 h3 r2 h4 r3 h6 r4 r5 show ?thesis by (intro conjI)
qed

text \<open>
  Claim C9 as stated fails in its last sentence.  With no feature configured,
  initialization fails when \<^verbatim>\<open>stty\<close> exits with a non-zero code; and a required feature
  that the capability check lets through fails in \<open>enableFeature\<close>, here a name that is
  not a known feature, asked for at the minimum level \<^verbatim>\<open>none\<close>.
\<close>

theorem initializeInput_only_error_path_counterexample:
  "fst (initializeInput world0 1 (plainCapabilities Kitty) [] [])
     = Inl ''Error: Failed to enable raw mode''
   \<and> \<not> unsupported (plainCapabilities Kitty)
         (''hyperlinks'', (plainConfig True)\<lparr>minLevel := Some NoneLevel\<rparr>)
   \<and> fst (initializeInput world0 0 (plainCapabilities Kitty) []
            [(''hyperlinks'', (plainConfig True)\<lparr>minLevel := Some NoneLevel\<rparr>)])
     = Inl (failureHeader
            @ ''Failed to enable required feature '' @ [CHR 0x27] @ ''hyperlinks'' @ [CHR 0x27]
            @ '': Error: Unknown feature: hyperlinks'')"
proof -
  have 1: "fst (initializeInput world0 1 (plainCapabilities Kitty) [] [])
     = Inl ''Error: Failed to enable raw mode''"
    by (simp add: initializeInput_def enableRawMode_def storeSupported_def world0_def
        terminalState0_def Let_def)
  have 2: "\<not> unsupported (plainCapabilities Kitty)
         (''hyperlinks'', (plainConfig True)\<lparr>minLevel := Some NoneLevel\<rparr>)"
    by (simp add: capability_eval)
  have raw: "enableRawMode (storeSupported (plainCapabilities Kitty) [] world0) 0
             = (None, loopStart world0 0 (plainCapabilities Kitty) [])"
    by (simp add: loopStart_def enableRawMode_def storeSupported_def world0_def terminalState0_def Let_def)
  have 3: "fst (initializeInput world0 0 (plainCapabilities Kitty) []
            [(''hyperlinks'', (plainConfig True)\<lparr>minLevel := Some NoneLevel\<rparr>)])
     = Inl (failureHeader
            @ ''Failed to enable required feature '' @ [CHR 0x27] @ ''hyperlinks'' @ [CHR 0x27]
            @ '': Error: Unknown feature: hyperlinks'')"
    using 2
    by (simp add: initializeInput_def raw unsupported_def enableFeature_def featureOfName_def
        failedMessage_def failureHeader_def plainConfig_def)
  from 1 2 3 show ?thesis by (intro conjI)
qed

section \<open>Input decoder: scenarios\<close>

lemmas decoder_eval =
  processByte_def processIdle_def processEscape_def processCSI_def processCSIParam_def
  processCSIIntermediate_def csiFinal_def handleCSISequence_def handleKittyKeyboard_def
  emitKey_def reset_def newDecoder_def getRawSequence_def byteChar_def
  extractKittyModifiers_def mapUnicodeToKeyCode_def adjustModifiers_def noMods_def
  SEQUENCE_BUFFER_SIZE_def MAX_CSI_PARAM_def MAX_CSI_PARAMS_def char_of_def bit_Suc_0_iff
  Let_def

lemma kitty_press_eval:
  "\<exists>r. (case feed (newDecoder True q t) [0x61, 0x1b, 0x5b, 0x39, 0x37, 0x3b, 0x31, 0x3a, 0x31, 0x75] of
      Inr d \<Rightarrow> events d | Inl e \<Rightarrow> []) = [KeyEvent (Char [97]) noMods (Some Press) False r]"
  by (simp add: decoder_eval)

lemma kitty_release_eval:
  "\<exists>r. (case feed (newDecoder True q t) [0x61, 0x1b, 0x5b, 0x39, 0x37, 0x3b, 0x31, 0x3a, 0x33, 0x75] of
      Inr d \<Rightarrow> events d | Inl e \<Rightarrow> []) = [KeyEvent (Char [97]) noMods (Some Release) False r]"
  by (simp add: decoder_eval)

lemma kitty_printable_eval:
  "(case feed (newDecoder True q t) [0x61] of Inr d \<Rightarrow> events d = [] | Inl e \<Rightarrow> False)"
  by (simp add: decoder_eval)

text \<open>
  Claim C5.  With the Kitty protocol enabled, the ten bytes \<^verbatim>\<open>a ESC [ 9 7 ; 1 : 1 u\<close> give
  exactly one event, the key \<open>a\<close> pressed with no modifier and no repeat; with the event
  type 3 the one event is the release; the bare byte \<open>0x61\<close> alone gives no event.  This
  holds for either setting of \<open>quirks\<close> and every terminal type.
\<close>

theorem kitty_simple_key_press_and_release:
  "(\<exists>d r. feed (newDecoder True q t) [0x61, 0x1b, 0x5b, 0x39, 0x37, 0x3b, 0x31, 0x3a, 0x31, 0x75] = Inr d
       \<and> events d = [KeyEvent (Char [97]) noMods (Some Press) False r])
   \<and> (\<exists>d r. feed (newDecoder True q t) [0x61, 0x1b, 0x5b, 0x39, 0x37, 0x3b, 0x31, 0x3a, 0x33, 0x75] = Inr d
       \<and> events d = [KeyEvent (Char [97]) noMods (Some Release) False r])
   \<and> (\<exists>d. feed (newDecoder True q t) [0x61] = Inr d \<and> events d = [])"
proof (intro conjI)
  show "\<exists>d r. feed (newDecoder True q t) [0x61, 0x1b, 0x5b, 0x39, 0x37, 0x3b, 0x31, 0x3a, 0x31, 0x75] = Inr d
       \<and> events d = [KeyEvent (Char [97]) noMods (Some Press) False r]"
    using kitty_press_eval [of q t]
    by (cases "feed (newDecoder True q t) [0x61, 0x1b, 0x5b, 0x39, 0x37, 0x3b, 0x31, 0x3a, 0x31, 0x75]")
       auto
  show "\<exists>d r. feed (newDecoder True q t) [0x61, 0x1b, 0x5b, 0x39, 0x37, 0x3b, 0x31, 0x3a, 0x33, 0x75] = Inr d
       \<and> events d = [KeyEvent (Char [97]) noMods (Some Release) False r]"
    using kitty_release_eval [of q t]
    by (cases "feed (newDecoder True q t) [0x61, 0x1b, 0x5b, 0x39, 0x37, 0x3b, 0x31, 0x3a, 0x33, 0x75]")
       auto
  show "\<exists>d. feed (newDecoder True q t) [0x61] = Inr d \<and> events d = []"
    using kitty_printable_eval [of q t]
    by (cases "feed (newDecoder True q t) [0x61]") auto
qed

theorem kitty_simple_key_witness:
  "(\<exists>d r. feed (newDecoder True True ITerm) [0x61, 0x1b, 0x5b, 0x39, 0x37, 0x3b, 0x31, 0x3a, 0x31, 0x75] = Inr d
       \<and> events d = [KeyEvent (Char [97]) noMods (Some Press) False r])
   \<and> (\<exists>d r. feed (newDecoder True True ITerm) [0x61, 0x1b, 0x5b, 0x39, 0x37, 0x3b, 0x31, 0x3a, 0x33, 0x75] = Inr d
       \<and> events d = [KeyEvent (Char [97]) noMods (Some Release) False r])"
  using kitty_simple_key_press_and_release [of True ITerm] by blast

text \<open>
  Claim C6 fails on the code.  The digit branch of \<open>processCSIParam\<close> tests
  \<open>currentValue < MAX_CSI_PARAM\<close> before it multiplies, so eight nines are stored as
  99999999, above \<open>0x00FFFFFF\<close>; and the digit branch of \<open>processCSIIntermediate\<close> pushes
  without the test on \<open>MAX_CSI_PARAMS\<close> that the separator branch makes, so sixteen
  separators, a space and a digit leave 17 parameters.  A parameter within the bound can
  still end in an error: \<^verbatim>\<open>ESC [ 1114112 u\<close> makes \<^verbatim>\<open>String.fromCodePoint\<close> throw.
\<close>

theorem csi_params_exceed_bounds:
  "(\<exists>d. feed (newDecoder k q t) [0x1b, 0x5b, 0x39, 0x39, 0x39, 0x39, 0x39, 0x39, 0x39, 0x39] = Inr d
       \<and> params d = [99999999] \<and> 99999999 > MAX_CSI_PARAM)
   \<and> (\<exists>d. feed (newDecoder k q t)
         [0x1b, 0x5b, 0x3b, 0x3b, 0x3b, 0x3b, 0x3b, 0x3b, 0x3b, 0x3b, 0x3b, 0x3b, 0x3b, 0x3b, 0x3b,
          0x3b, 0x3b, 0x3b, 0x20, 0x31] = Inr d
       \<and> length (params d) = 17 \<and> 17 > MAX_CSI_PARAMS)
   \<and> feed (newDecoder k q t) [0x1b, 0x5b, 0x31, 0x31, 0x31, 0x34, 0x31, 0x31, 0x32, 0x75]
       = Inl RangeError"
proof (intro conjI)
  show "feed (newDecoder k q t) [0x1b, 0x5b, 0x31, 0x31, 0x31, 0x34, 0x31, 0x31, 0x32, 0x75]
       = Inl RangeError"
    by (simp add: decoder_eval)
  have "(case feed (newDecoder k q t) [0x1b, 0x5b, 0x39, 0x39, 0x39, 0x39, 0x39, 0x39, 0x39, 0x39] of
      Inr d \<Rightarrow> params d = [99999999] | Inl e \<Rightarrow> False)"
    by (simp add: decoder_eval)
  then show "\<exists>d. feed (newDecoder k q t) [0x1b, 0x5b, 0x39, 0x39, 0x39, 0x39, 0x39, 0x39, 0x39, 0x39] = Inr d
       \<and> params d = [99999999] \<and> 99999999 > MAX_CSI_PARAM"
    by (cases "feed (newDecoder k q t) [0x1b, 0x5b, 0x39, 0x39, 0x39, 0x39, 0x39, 0x39, 0x39, 0x39]")
       (auto simp: MAX_CSI_PARAM_def)
  have "(case feed (newDecoder k q t)
         [0x1b, 0x5b, 0x3b, 0x3b, 0x3b, 0x3b, 0x3b, 0x3b, 0x3b, 0x3b, 0x3b, 0x3b, 0x3b, 0x3b, 0x3b,
          0x3b, 0x3b, 0x3b, 0x20, 0x31] of
      Inr d \<Rightarrow> length (params d) = 17 | Inl e \<Rightarrow> False)"
    by (simp add: decoder_eval)
  then show "\<exists>d. feed (newDecoder k q t)
         [0x1b, 0x5b, 0x3b, 0x3b, 0x3b, 0x3b, 0x3b, 0x3b, 0x3b, 0x3b, 0x3b, 0x3b, 0x3b, 0x3b, 0x3b,
          0x3b, 0x3b, 0x3b, 0x20, 0x31] = Inr d
       \<and> length (params d) = 17 \<and> 17 > MAX_CSI_PARAMS"
    by (cases "feed (newDecoder k q t)
         [0x1b, 0x5b, 0x3b, 0x3b, 0x3b, 0x3b, 0x3b, 0x3b, 0x3b, 0x3b, 0x3b, 0x3b, 0x3b, 0x3b, 0x3b,
          0x3b, 0x3b, 0x3b, 0x20, 0x31]")
       (auto simp: MAX_CSI_PARAMS_def)
qed

theorem csi_params_exceed_bounds_witness:
  "\<exists>d. feed (newDecoder False True Unknown) [0x1b, 0x5b, 0x39, 0x39, 0x39, 0x39, 0x39, 0x39, 0x39, 0x39] = Inr d
       \<and> params d = [99999999] \<and> 99999999 > MAX_CSI_PARAM"
  using csi_params_exceed_bounds [of False True Unknown] by blast

section \<open>The diff engine: buffers after a frame\<close>

lemma generateStateChange_frame:
  "rows (snd (generateStateChange s a f b)) = rows s
   \<and> cols (snd (generateStateChange s a f b)) = cols s
   \<and> size' (snd (generateStateChange s a f b)) = size' s
   \<and> prev (snd (generateStateChange s a f b)) = prev s
   \<and> curr (snd (generateStateChange s a f b)) = curr s
   \<and> dirty (snd (generateStateChange s a f b)) = dirty s"
  by (simp add: generateStateChange_def Let_def)

lemma copyRun_length: "length (copyRun cur off is prv) = length prv"
  by (induction "is" arbitrary: prv) (simp_all split: option.splits)

lemma copyRun_nth:
  assumes "\<forall>i \<in> set is. off + i < length cur" "length prv = length cur" "j < length prv"
  shows "copyRun cur off is prv ! j = (if j \<in> (\<lambda>i. off + i) ` set is then cur ! j else prv ! j)"
  using assms
proof (induction "is" arbitrary: prv)
  case Nil
  then show ?case by simp
next
  case (Cons i "is")
  have c: "cellAt cur (off + i) = Some (cur ! (off + i))"
    using Cons.prems(1) by (simp add: cellAt_def)
  have "copyRun cur off (i # is) prv ! j = copyRun cur off is (prv[off + i := cur ! (off + i)]) ! j"
    by (simp add: c)
  also have "\<dots> = (if j \<in> (\<lambda>i. off + i) ` set is then cur ! j
                    else (prv[off + i := cur ! (off + i)]) ! j)"
    using Cons.prems by (intro Cons.IH) simp_all
  also have "\<dots> = (if j \<in> (\<lambda>i. off + i) ` set (i # is) then cur ! j else prv ! j)"
    using Cons.prems by (auto simp: nth_list_update)
  finally show ?case .
qed

lemma runChars_error: "runChars cur off is = Inl e \<Longrightarrow> e = RangeError"
  by (induction "is") (auto simp: unpackChar_def Let_def split: option.splits sum.splits if_splits)

lemma findRunEnd_loop_ge: "e \<le> findRunEnd_loop cur n off e a f b"
  by (induction cur n off e a f b rule: findRunEnd_loop.induct)
     (subst findRunEnd_loop.simps, auto split: option.splits)

lemma findRunEnd_loop_le: "e \<le> n \<Longrightarrow> findRunEnd_loop cur n off e a f b \<le> n"
  by (induction cur n off e a f b rule: findRunEnd_loop.induct)
     (subst findRunEnd_loop.simps, auto split: option.splits)

lemma findRunEnd_gt:
  assumes "col < cols s" "cellAt (curr s) (row * cols s + col) = Some c"
  shows "col < findRunEnd s row col (unpackAttr c) (unpackFgColor c) (unpackBgColor c)"
proof -
  have "findRunEnd s row col (unpackAttr c) (unpackFgColor c) (unpackBgColor c)
        = findRunEnd_loop (curr s) (cols s) (row * cols s) (col + 1) (unpackAttr c) (unpackFgColor c) (unpackBgColor c)"
    unfolding findRunEnd_def using assms by (subst findRunEnd_loop.simps) simp
  then show ?thesis
    using findRunEnd_loop_ge [of "col + 1" "curr s" "cols s" "row * cols s" "unpackAttr c" "unpackFgColor c" "unpackBgColor c"]
    by simp
qed

lemma findRunEnd_le: "col \<le> cols s \<Longrightarrow> findRunEnd s row col a f b \<le> cols s"
  unfolding findRunEnd_def by (rule findRunEnd_loop_le)

lemma runHasChanges_False:
  assumes "\<not> runHasChanges s row a b" "a \<le> c" "c < b"
    "row * cols s + c < length (prev s)" "row * cols s + c < length (curr s)"
  shows "prev s ! (row * cols s + c) = curr s ! (row * cols s + c)"
proof -
  have "c \<in> set [a..<b]" using assms by simp
  with assms(1) have "case (cellAt (prev s) (row * cols s + c), cellAt (curr s) (row * cols s + c)) of
                  (Some prevCell, Some currCell) \<Rightarrow> cellEquals prevCell currCell
                | _ \<Rightarrow> False"
    unfolding runHasChanges_def list_ex_iff Let_def by blast
  then show ?thesis
    using assms(4,5) by (simp add: cellAt_def cellEquals_def prod_eq_iff)
qed

text \<open>What one call of \<open>outputRun\<close> does to the engine.\<close>

lemma outputRun_frame:
  assumes "outputRun s row a b x y z = (res, s')"
  shows "rows s' = rows s \<and> cols s' = cols s \<and> size' s' = size' s \<and> curr s' = curr s
         \<and> dirty s' = dirty s
         \<and> (case res of Inl e \<Rightarrow> e = RangeError \<and> prev s' = prev s
             | Inr t \<Rightarrow> prev s' = copyRun (curr s) (row * cols s) [a..<b] (prev s))"
proof -
  obtain sc s1 where g: "generateStateChange s x y z = (sc, s1)"
    by (cases "generateStateChange s x y z")
  have f: "rows s1 = rows s" "cols s1 = cols s" "size' s1 = size' s" "prev s1 = prev s"
    "curr s1 = curr s" "dirty s1 = dirty s"
    using generateStateChange_frame [of s x y z] g by simp_all
  show ?thesis
  proof (cases "runChars (curr s) (row * cols s) [a..<b]")
    case (Inl e)
    then have "res = Inl e" "s' = s1"
      using assms g f by (simp_all add: outputRun_def Let_def)
    then show ?thesis using f runChars_error [OF Inl] by simp
  next
    case (Inr t)
    then have "res = Inr (sc @ t)"
      "s' = s1\<lparr>prev := copyRun (curr s1) (row * cols s) [a..<b] (prev s1)\<rparr>"
      using assms g f by (simp_all add: outputRun_def Let_def)
    then show ?thesis using f by simp
  qed
qed

text \<open>
  The column loop on a row that lies inside both buffers: it never spins, it touches the
  front buffer only between the column it starts at and the end of the row, and when it
  returns the rest of the row is the same in both buffers.
\<close>

lemma computeDiff_cols_inv:
  assumes "length (prev s) = n" "length (curr s) = n" "row * cols s + cols s \<le> n"
    and "computeDiff_cols s row col outp lr lc = (res, s')"
  shows "rows s' = rows s \<and> cols s' = cols s \<and> size' s' = size' s \<and> curr s' = curr s
     \<and> dirty s' = dirty s \<and> length (prev s') = n
     \<and> (\<forall>i<n. (i < row * cols s + col \<or> row * cols s + cols s \<le> i) \<longrightarrow> prev s' ! i = prev s ! i)
     \<and> res \<noteq> Inl Diverges
     \<and> ((\<exists>x. res = Inr x) \<longrightarrow>
          (\<forall>c. col \<le> c \<and> c < cols s \<longrightarrow> prev s' ! (row * cols s + c) = curr s ! (row * cols s + c)))"
  using assms
proof (induction "cols s - col" arbitrary: s col outp lr lc rule: less_induct)
  case less
  let ?off = "row * cols s"
  show ?case
  proof (cases "col < cols s")
    case False
    then have "res = Inr (outp, lr, lc)" "s' = s"
      using less.prems(4) by (simp_all add: computeDiff_cols.simps [of s row col])
    then show ?thesis using False less.prems by auto
  next
    case True
    have inr: "?off + col < n" using True less.prems(3) by simp
    define c0 where "c0 = curr s ! (?off + col)"
    have cell: "cellAt (curr s) (?off + col) = Some c0"
      using inr less.prems(2) by (simp add: cellAt_def c0_def)
    define runEnd where "runEnd = findRunEnd s row col (unpackAttr c0) (unpackFgColor c0) (unpackBgColor c0)"
    have gt: "col < runEnd" unfolding runEnd_def using findRunEnd_gt [OF True cell] .
    have le: "runEnd \<le> cols s" unfolding runEnd_def using True by (intro findRunEnd_le) simp
    show ?thesis
    proof (cases "runHasChanges s row col runEnd")
      case False
      have rec: "computeDiff_cols s row runEnd outp lr lc = (res, s')"
        using less.prems(4) True cell False
        by (simp add: computeDiff_cols.simps [of s row col] runEnd_def Let_def)
      have IH: "rows s' = rows s \<and> cols s' = cols s \<and> size' s' = size' s \<and> curr s' = curr s
         \<and> dirty s' = dirty s \<and> length (prev s') = n
         \<and> (\<forall>i<n. (i < ?off + runEnd \<or> ?off + cols s \<le> i) \<longrightarrow> prev s' ! i = prev s ! i)
         \<and> res \<noteq> Inl Diverges
         \<and> ((\<exists>x. res = Inr x) \<longrightarrow>
              (\<forall>c. runEnd \<le> c \<and> c < cols s \<longrightarrow> prev s' ! (?off + c) = curr s ! (?off + c)))"
        using less.hyps [of s runEnd outp lr lc] gt True less.prems(1,2,3) rec by simp
      have same: "prev s ! (?off + c) = curr s ! (?off + c)" if "col \<le> c" "c < runEnd" for c
        using runHasChanges_False [OF False that] that le less.prems(1,2,3) by simp
      have low: "prev s' ! (?off + c) = curr s ! (?off + c)" if "col \<le> c" "c < runEnd" for c
      proof -
        have "?off + c < n" using that le less.prems(3) by simp
        then have "prev s' ! (?off + c) = prev s ! (?off + c)" using IH that by simp
        then show ?thesis using same [OF that] by simp
      qed
      have part: "\<forall>c. col \<le> c \<and> c < cols s \<longrightarrow> prev s' ! (?off + c) = curr s ! (?off + c)"
        if "\<exists>x. res = Inr x"
      proof (intro allI impI)
        fix c assume "col \<le> c \<and> c < cols s"
        then show "prev s' ! (?off + c) = curr s ! (?off + c)"
          using IH that low [of c] by (cases "c < runEnd") auto
      qed
      show ?thesis using IH gt part by auto
    next
      case changed: True
      obtain r1 s1 where orun: "outputRun s row col runEnd (unpackAttr c0) (unpackFgColor c0) (unpackBgColor c0) = (r1, s1)"
        by (cases "outputRun s row col runEnd (unpackAttr c0) (unpackFgColor c0) (unpackBgColor c0)")
      note fr = outputRun_frame [OF orun]
      show ?thesis
      proof (cases r1)
        case (Inl e)
        then have "res = Inl e" "s' = s1"
          using less.prems(4) True cell changed orun
          by (simp_all add: computeDiff_cols.simps [of s row col] runEnd_def Let_def)
        then show ?thesis using fr Inl less.prems(1) by auto
      next
        case (Inr t)
        define o1 where "o1 = (if lr \<noteq> int row \<or> lc \<noteq> int col then outp @ moveTo (row + 1) (col + 1) else outp)"
        define lr1 where "lr1 = (if lr \<noteq> int row \<or> lc \<noteq> int col then int row else lr)"
        have rec: "computeDiff_cols s1 row runEnd (o1 @ t) lr1 (int runEnd) = (res, s')"
          using less.prems(4) True cell changed orun Inr
          by (simp add: computeDiff_cols.simps [of s row col] runEnd_def Let_def o1_def lr1_def)
        have p1: "prev s1 = copyRun (curr s) ?off [col..<runEnd] (prev s)"
          and k1: "cols s1 = cols s" "rows s1 = rows s" "size' s1 = size' s" "curr s1 = curr s"
            "dirty s1 = dirty s"
          using fr Inr by simp_all
        have inb: "\<forall>i \<in> set [col..<runEnd]. ?off + i < length (curr s)"
          using le less.prems(2,3) by auto
        have len1: "length (prev s1) = n" using p1 copyRun_length less.prems(1) by simp
        have nth1: "prev s1 ! j = (if ?off + col \<le> j \<and> j < ?off + runEnd then curr s ! j else prev s ! j)"
          if "j < n" for j
        proof -
          have "prev s1 ! j = (if j \<in> (\<lambda>i. ?off + i) ` set [col..<runEnd] then curr s ! j else prev s ! j)"
            unfolding p1 using that less.prems(1,2) by (intro copyRun_nth [OF inb]) simp_all
          moreover have "j \<in> (\<lambda>i. ?off + i) ` set [col..<runEnd] \<longleftrightarrow> ?off + col \<le> j \<and> j < ?off + runEnd"
          proof
            assume "j \<in> (\<lambda>i. ?off + i) ` set [col..<runEnd]"
            then show "?off + col \<le> j \<and> j < ?off + runEnd" by auto
          next
            assume a: "?off + col \<le> j \<and> j < ?off + runEnd"
            then have "j - ?off \<in> set [col..<runEnd]" by auto
            moreover have "j = ?off + (j - ?off)" using a by simp
            ultimately show "j \<in> (\<lambda>i. ?off + i) ` set [col..<runEnd]" by blast
          qed
          ultimately show ?thesis by simp
        qed
        have IH: "rows s' = rows s1 \<and> cols s' = cols s1 \<and> size' s' = size' s1 \<and> curr s' = curr s1
           \<and> dirty s' = dirty s1 \<and> length (prev s') = n
           \<and> (\<forall>i<n. (i < row * cols s1 + runEnd \<or> row * cols s1 + cols s1 \<le> i) \<longrightarrow> prev s' ! i = prev s1 ! i)
           \<and> res \<noteq> Inl Diverges
           \<and> ((\<exists>x. res = Inr x) \<longrightarrow>
                (\<forall>c. runEnd \<le> c \<and> c < cols s1 \<longrightarrow> prev s' ! (row * cols s1 + c) = curr s1 ! (row * cols s1 + c)))"
          using less.hyps [of s1 runEnd "o1 @ t" lr1 "int runEnd"] gt True less.prems(2,3) rec len1 k1
          by simp
        have out: "prev s' ! i = prev s ! i" if "i < n" "i < ?off + col \<or> ?off + cols s \<le> i" for i
        proof -
          have "prev s' ! i = prev s1 ! i" using IH that gt k1 by auto
          also have "\<dots> = prev s ! i" using nth1 [OF that(1)] that(2) le by auto
          finally show ?thesis .
        qed
        have part: "prev s' ! (?off + c) = curr s ! (?off + c)"
          if "\<exists>x. res = Inr x" "col \<le> c" "c < cols s" for c
        proof (cases "c < runEnd")
          case True
          have cn: "?off + c < n" using that less.prems(3) by simp
          have "prev s' ! (?off + c) = prev s1 ! (?off + c)" using IH cn True k1 by simp
          also have "\<dots> = curr s ! (?off + c)" using nth1 [OF cn] that True by simp
          finally show ?thesis .
        next
          case False
          then show ?thesis using IH that k1 by simp
        qed
        show ?thesis using IH k1 out part by auto
      qed
    qed
  qed
qed

lemma other_row_index:
  fixes r row c k :: nat
  assumes "r \<noteq> row" "c < k"
  shows "r * k + c < row * k \<or> row * k + k \<le> r * k + c"
proof (cases "r < row")
  case True
  then have "Suc r * k \<le> row * k" by (intro mult_le_mono1) simp
  then show ?thesis using assms(2) by simp
next
  case False
  then have "Suc row * k \<le> r * k" using assms(1) by (intro mult_le_mono1) simp
  then show ?thesis by simp
qed

lemma row_in_buffer:
  fixes row k m :: nat
  assumes "row < m"
  shows "row * k + k \<le> m * k"
proof -
  have "Suc row * k \<le> m * k" using assms by (intro mult_le_mono1) simp
  then show ?thesis by simp
qed

lemma computeDiff_cols_row:
  assumes "length (prev s) = n" "length (curr s) = n" "row * cols s + cols s \<le> n"
    and "computeDiff_cols s row 0 outp lr lc = (res, s')"
  shows "rows s' = rows s" "cols s' = cols s" "size' s' = size' s" "curr s' = curr s"
    "dirty s' = dirty s" "length (prev s') = n"
    "res \<noteq> Inl Diverges"
    "\<And>i. i < n \<Longrightarrow> i < row * cols s \<or> row * cols s + cols s \<le> i \<Longrightarrow> prev s' ! i = prev s ! i"
    "\<And>x c. res = Inr x \<Longrightarrow> c < cols s \<Longrightarrow> prev s' ! (row * cols s + c) = curr s ! (row * cols s + c)"
proof -
  note ci = computeDiff_cols_inv [OF assms]
  show "rows s' = rows s" using ci by (elim conjE)
  show "cols s' = cols s" using ci by (elim conjE)
  show "size' s' = size' s" using ci by (elim conjE)
  show "curr s' = curr s" using ci by (elim conjE)
  show "dirty s' = dirty s" using ci by (elim conjE)
  show "length (prev s') = n" using ci by (elim conjE)
  show "res \<noteq> Inl Diverges" using ci by (elim conjE)
  have u: "\<forall>i<n. (i < row * cols s + 0 \<or> row * cols s + cols s \<le> i) \<longrightarrow> prev s' ! i = prev s ! i"
    using ci by (elim conjE)
  show "prev s' ! i = prev s ! i" if "i < n" "i < row * cols s \<or> row * cols s + cols s \<le> i" for i
    using u that by auto
  have v: "(\<exists>x. res = Inr x) \<longrightarrow>
          (\<forall>c. 0 \<le> c \<and> c < cols s \<longrightarrow> prev s' ! (row * cols s + c) = curr s ! (row * cols s + c))"
    using ci by (elim conjE)
  show "prev s' ! (row * cols s + c) = curr s ! (row * cols s + c)" if "res = Inr x" "c < cols s" for x c
  proof -
    from v that(1) have "\<forall>c. 0 \<le> c \<and> c < cols s \<longrightarrow> prev s' ! (row * cols s + c) = curr s ! (row * cols s + c)"
      by blast
    then show ?thesis using that(2) by simp
  qed
qed

lemma rows_step_clean:
  assumes "\<not> isDirty s row"
  shows "computeDiff_rows (row # rest) s outp lr lc = computeDiff_rows rest s outp lr lc"
  using assms by simp

lemma rows_step_abort:
  assumes "isDirty s row" "computeDiff_cols s row 0 outp lr lc = (Inl e, s1)"
  shows "computeDiff_rows (row # rest) s outp lr lc = (Inl e, s1)"
  using assms by simp

lemma rows_step_ok:
  assumes "isDirty s row" "computeDiff_cols s row 0 outp lr lc = (Inr (o', lr', lc'), s1)"
  shows "computeDiff_rows (row # rest) s outp lr lc
         = computeDiff_rows rest (s1\<lparr>dirty := (dirty s1)[row := 0]\<rparr>) o' lr' lc'"
  using assms by simp

text \<open>The row loop keeps the representation invariant, whether it returns or is left by
  an exception, and when it returns no row it went through is dirty.\<close>

lemma computeDiff_rows_inv:
  assumes "engine_ok s" "\<forall>r \<in> set rs. r < rows s"
    and "computeDiff_rows rs s outp lr lc = (res, s')"
  shows "engine_ok s' \<and> rows s' = rows s \<and> cols s' = cols s \<and> curr s' = curr s
     \<and> res \<noteq> Inl Diverges
     \<and> (\<forall>r < rows s. r \<notin> set rs \<longrightarrow> dirty s' ! r = dirty s ! r)
     \<and> ((\<exists>x. res = Inr x) \<longrightarrow> (\<forall>r \<in> set rs. \<not> isDirty s' r))"
  using assms
proof (induction rs arbitrary: s outp lr lc)
  case Nil
  then show ?case by auto
next
  case (Cons row rest)
  have rr: "row < rows s" and rest: "\<forall>r \<in> set rest. r < rows s" using Cons.prems(2) by simp_all
  note eo = Cons.prems(1) [unfolded engine_ok_def]
  have ok: "size' s = rows s * cols s" "length (prev s) = rows s * cols s"
    "length (curr s) = rows s * cols s" "length (dirty s) = rows s"
    using eo by simp_all
  have sync_all: "\<forall>row < rows s. dirty s ! row \<noteq> 1 \<longrightarrow>
            (\<forall>col < cols s. prev s ! (row * cols s + col) = curr s ! (row * cols s + col))"
    using eo by (elim conjE)
  have sync: "prev s ! (r * cols s + c) = curr s ! (r * cols s + c)"
    if "r < rows s" "dirty s ! r \<noteq> 1" "c < cols s" for r c
    using sync_all that by blast
  show ?case
  proof (cases "isDirty s row")
    case False
    have rec: "computeDiff_rows rest s outp lr lc = (res, s')"
      using Cons.prems(3) unfolding rows_step_clean [OF False] .
    note IH = Cons.IH [OF Cons.prems(1) rest rec]
    have I1: "engine_ok s'" and I2: "rows s' = rows s" and I3: "cols s' = cols s"
      and I4: "curr s' = curr s" and I5: "res \<noteq> Inl Diverges"
      and I6: "\<forall>r < rows s. r \<notin> set rest \<longrightarrow> dirty s' ! r = dirty s ! r"
      and I7: "(\<exists>x. res = Inr x) \<longrightarrow> (\<forall>r \<in> set rest. \<not> isDirty s' r)"
      using IH [THEN conjunct1] IH [THEN conjunct2, THEN conjunct1]
        IH [THEN conjunct2, THEN conjunct2, THEN conjunct1]
        IH [THEN conjunct2, THEN conjunct2, THEN conjunct2, THEN conjunct1]
        IH [THEN conjunct2, THEN conjunct2, THEN conjunct2, THEN conjunct2, THEN conjunct1]
        IH [THEN conjunct2, THEN conjunct2, THEN conjunct2, THEN conjunct2, THEN conjunct2, THEN conjunct1]
        IH [THEN conjunct2, THEN conjunct2, THEN conjunct2, THEN conjunct2, THEN conjunct2, THEN conjunct2]
      by - assumption+
    have nd: "\<not> isDirty s' row" if "\<exists>x. res = Inr x"
    proof (cases "row \<in> set rest")
      case True
      then show ?thesis using I7 that by blast
    next
      case nin: False
      then have "dirty s' ! row = dirty s ! row" using I6 rr by simp
      moreover have "length (dirty s') = length (dirty s)"
        using I1 I2 ok by (simp add: engine_ok_def)
      ultimately show ?thesis using False by (simp add: isDirty_def)
    qed
    show ?thesis
    proof (intro conjI)
      show "engine_ok s'" by (rule I1)
      show "rows s' = rows s" by (rule I2)
      show "cols s' = cols s" by (rule I3)
      show "curr s' = curr s" by (rule I4)
      show "res \<noteq> Inl Diverges" by (rule I5)
      show "\<forall>r<rows s. r \<notin> set (row # rest) \<longrightarrow> dirty s' ! r = dirty s ! r"
        using I6 by simp
      show "(\<exists>x. res = Inr x) \<longrightarrow> (\<forall>r\<in>set (row # rest). \<not> isDirty s' r)"
        using nd I7 by simp
    qed
  next
    case True
    obtain r1 s1 where cl: "computeDiff_cols s row 0 outp lr lc = (r1, s1)"
      by (cases "computeDiff_cols s row 0 outp lr lc")
    have fit: "row * cols s + cols s \<le> rows s * cols s" using row_in_buffer [OF rr] .
    note ci = computeDiff_cols_row [OF ok(2) ok(3) fit cl]
    have k: "rows s1 = rows s" "cols s1 = cols s" "size' s1 = size' s" "curr s1 = curr s"
      "dirty s1 = dirty s" "length (prev s1) = rows s * cols s"
      using ci(1-6) by simp_all
    have keep: "prev s1 ! (r * cols s + c) = prev s ! (r * cols s + c)"
      if "r < rows s" "r \<noteq> row" "c < cols s" for r c
    proof -
      have 1: "r * cols s + c < rows s * cols s"
        using row_in_buffer [OF that(1), of "cols s"] that(3) by simp
      have 2: "r * cols s + c < row * cols s \<or> row * cols s + cols s \<le> r * cols s + c"
        using other_row_index [OF that(2,3)] .
      show ?thesis using ci(8) [OF 1 2] .
    qed
    have dirty_row: "dirty s ! row = 1" using True by (simp add: isDirty_def)
    show ?thesis
    proof (cases r1)
      case (Inl e)
      have "(res, s') = (Inl e, s1)"
        using Cons.prems(3) unfolding rows_step_abort [OF True cl [unfolded Inl]] by simp
      then have fin: "res = Inl e" "s' = s1" by simp_all
      have ok1: "engine_ok s1"
        unfolding engine_ok_def
      proof (intro conjI allI impI)
        fix r c assume a: "r < rows s1" "dirty s1 ! r \<noteq> 1" "c < cols s1"
        have ne: "r \<noteq> row" using a(2) dirty_row k(5) by auto
        have "prev s1 ! (r * cols s + c) = prev s ! (r * cols s + c)"
          using keep [of r c] a ne k(1,2) by simp
        also have "\<dots> = curr s ! (r * cols s + c)"
          using sync [of r c] a k(1,2,5) by simp
        finally show "prev s1 ! (r * cols s1 + c) = curr s1 ! (r * cols s1 + c)"
          using k(2,4) by simp
      qed (use k ok in simp_all)
      have nd: "res \<noteq> Inl Diverges" using ci(7) Inl fin by simp
      have noinr: "\<not> (\<exists>x. res = Inr x)" using fin by simp
      show ?thesis
        unfolding fin(2)
      proof (intro conjI)
        show "engine_ok s1" by (rule ok1)
        show "rows s1 = rows s" by (rule k(1))
        show "cols s1 = cols s" by (rule k(2))
        show "curr s1 = curr s" by (rule k(4))
        show "res \<noteq> Inl Diverges" by (rule nd)
        show "\<forall>r<rows s. r \<notin> set (row # rest) \<longrightarrow> dirty s1 ! r = dirty s ! r"
          using k(5) by simp
        show "(\<exists>x. res = Inr x) \<longrightarrow> (\<forall>r\<in>set (row # rest). \<not> isDirty s1 r)"
          using noinr by simp
      qed
    next
      case (Inr t)
      obtain o' lr' lc' where t: "t = (o', lr', lc')" by (cases t)
      define s2 where "s2 = s1\<lparr>dirty := (dirty s1)[row := 0]\<rparr>"
      have rec: "computeDiff_rows rest s2 o' lr' lc' = (res, s')"
        using Cons.prems(3) unfolding rows_step_ok [OF True cl [unfolded Inr t]] s2_def .
      have rowsync: "prev s1 ! (row * cols s + c) = curr s ! (row * cols s + c)" if "c < cols s" for c
        using ci(9) [OF Inr that] .
      have k2: "rows s2 = rows s" "cols s2 = cols s" "curr s2 = curr s" "prev s2 = prev s1"
        "dirty s2 = (dirty s)[row := 0]" "size' s2 = size' s"
        using k by (simp_all add: s2_def)
      have ok2: "engine_ok s2"
        unfolding engine_ok_def
      proof (intro conjI allI impI)
        fix r c assume a: "r < rows s2" "dirty s2 ! r \<noteq> 1" "c < cols s2"
        have rc: "r < rows s" "c < cols s" using a k2 by simp_all
        show "prev s2 ! (r * cols s2 + c) = curr s2 ! (r * cols s2 + c)"
        proof (cases "r = row")
          case True
          then show ?thesis using rowsync [OF rc(2)] k2 by simp
        next
          case False
          then have "dirty s ! r \<noteq> 1" using a(2) k2(5) by simp
          then have "prev s ! (r * cols s + c) = curr s ! (r * cols s + c)"
            using sync rc by simp
          then show ?thesis using keep [OF rc(1) False rc(2)] k2 by simp
        qed
      qed (use k2 k ok in simp_all)
      have rest2: "\<forall>r \<in> set rest. r < rows s2" using rest k2 by simp
      note IH = Cons.IH [OF ok2 rest2 rec]
      have I1: "engine_ok s'" and I2: "rows s' = rows s2" and I3: "cols s' = cols s2"
        and I4: "curr s' = curr s2" and I5: "res \<noteq> Inl Diverges"
        and I6: "\<forall>r < rows s2. r \<notin> set rest \<longrightarrow> dirty s' ! r = dirty s2 ! r"
        and I7: "(\<exists>x. res = Inr x) \<longrightarrow> (\<forall>r \<in> set rest. \<not> isDirty s' r)"
        using IH [THEN conjunct1] IH [THEN conjunct2, THEN conjunct1]
        IH [THEN conjunct2, THEN conjunct2, THEN conjunct1]
        IH [THEN conjunct2, THEN conjunct2, THEN conjunct2, THEN conjunct1]
        IH [THEN conjunct2, THEN conjunct2, THEN conjunct2, THEN conjunct2, THEN conjunct1]
        IH [THEN conjunct2, THEN conjunct2, THEN conjunct2, THEN conjunct2, THEN conjunct2, THEN conjunct1]
        IH [THEN conjunct2, THEN conjunct2, THEN conjunct2, THEN conjunct2, THEN conjunct2, THEN conjunct2]
      by - assumption+
      have nd: "\<not> isDirty s' row" if "\<exists>x. res = Inr x"
      proof (cases "row \<in> set rest")
        case True
        then show ?thesis using I7 that by blast
      next
        case nin: False
        then have "dirty s' ! row = dirty s2 ! row" using I6 rr k2(1) by simp
        then have "dirty s' ! row = 0" using k2(5) rr ok(4) by simp
        then show ?thesis by (simp add: isDirty_def)
      qed
      have unch: "dirty s' ! r = dirty s ! r" if "r < rows s" "r \<notin> set (row # rest)" for r
      proof -
        have "dirty s' ! r = dirty s2 ! r" using I6 that k2(1) by simp
        then show ?thesis using that k2(5) by simp
      qed
      show ?thesis
      proof (intro conjI)
        show "engine_ok s'" by (rule I1)
        show "rows s' = rows s" using I2 k2(1) by simp
        show "cols s' = cols s" using I3 k2(2) by simp
        show "curr s' = curr s" using I4 k2(3) by simp
        show "res \<noteq> Inl Diverges" by (rule I5)
        show "\<forall>r<rows s. r \<notin> set (row # rest) \<longrightarrow> dirty s' ! r = dirty s ! r"
          using unch by blast
        show "(\<exists>x. res = Inr x) \<longrightarrow> (\<forall>r\<in>set (row # rest). \<not> isDirty s' r)"
          using nd I7 by simp
      qed
    qed
  qed
qed

lemma computeDiff_rows_clean:
  assumes "\<forall>r \<in> set rs. \<not> isDirty s r"
  shows "computeDiff_rows rs s outp lr lc = (Inr (outp, lr, lc), s)"
  using assms by (induction rs) simp_all

lemma synced_buffers_equal:
  assumes "engine_ok s" "\<forall>r < rows s. \<not> isDirty s r"
  shows "prev s = curr s"
proof (rule nth_equalityI)
  show "length (prev s) = length (curr s)" using assms(1) by (simp add: engine_ok_def)
next
  fix i assume "i < length (prev s)"
  then have i: "i < rows s * cols s" using assms(1) by (simp add: engine_ok_def)
  then have pos: "0 < cols s" by (cases "cols s") auto
  have r: "i div cols s < rows s" using i pos by (simp add: less_mult_imp_div_less)
  have c: "i mod cols s < cols s" using pos by simp
  have len: "length (dirty s) = rows s" using assms(1) by (simp add: engine_ok_def)
  have nd: "dirty s ! (i div cols s) \<noteq> 1"
    using assms(2) r len by (auto simp: isDirty_def)
  have sync: "\<And>r c. r < rows s \<Longrightarrow> dirty s ! r \<noteq> 1 \<Longrightarrow> c < cols s
                \<Longrightarrow> prev s ! (r * cols s + c) = curr s ! (r * cols s + c)"
    using assms(1) by (simp add: engine_ok_def)
  have e: "i div cols s * cols s + i mod cols s = i" by simp
  from sync [OF r nd c] show "prev s ! i = curr s ! i" unfolding e .
qed

text \<open>The operations keep the representation invariant.\<close>

lemma engine_okI:
  assumes "size' s = rows s * cols s" "length (prev s) = rows s * cols s"
    "length (curr s) = rows s * cols s" "length (dirty s) = rows s"
    and "\<And>r c. r < rows s \<Longrightarrow> dirty s ! r \<noteq> 1 \<Longrightarrow> c < cols s
           \<Longrightarrow> prev s ! (r * cols s + c) = curr s ! (r * cols s + c)"
  shows "engine_ok s"
  unfolding engine_ok_def using assms by blast

lemma engine_okD:
  assumes "engine_ok s"
  shows "size' s = rows s * cols s" "length (prev s) = rows s * cols s"
    "length (curr s) = rows s * cols s" "length (dirty s) = rows s"
    "\<And>r c. r < rows s \<Longrightarrow> dirty s ! r \<noteq> 1 \<Longrightarrow> c < cols s
           \<Longrightarrow> prev s ! (r * cols s + c) = curr s ! (r * cols s + c)"
  using assms unfolding engine_ok_def by blast+

lemma engine_ok_new: "engine_ok (newDiffEngine r c)"
  by (rule engine_okI) (simp_all add: newDiffEngine_def)

lemma engine_ok_markDirty:
  assumes "engine_ok s"
  shows "engine_ok (markDirty s row)"
proof (cases "row \<ge> 0 \<and> row < int (rows s)")
  case False
  then have "markDirty s row = s" by (auto simp add: markDirty_def)
  then show ?thesis using assms by simp
next
  case True
  note d = engine_okD [OF assms]
  have m: "markDirty s row = s\<lparr>dirty := (dirty s)[nat row := 1]\<rparr>"
    using True by (simp add: markDirty_def)
  show ?thesis
    unfolding m
  proof (rule engine_okI)
    fix r c
    assume a: "r < rows (s\<lparr>dirty := (dirty s)[nat row := 1]\<rparr>)"
      "dirty (s\<lparr>dirty := (dirty s)[nat row := 1]\<rparr>) ! r \<noteq> 1"
      "c < cols (s\<lparr>dirty := (dirty s)[nat row := 1]\<rparr>)"
    have "r \<noteq> nat row" using a(1,2) d(4) by auto
    then have "dirty s ! r \<noteq> 1" using a(2) by simp
    then show "prev (s\<lparr>dirty := (dirty s)[nat row := 1]\<rparr>) ! (r * cols (s\<lparr>dirty := (dirty s)[nat row := 1]\<rparr>) + c)
        = curr (s\<lparr>dirty := (dirty s)[nat row := 1]\<rparr>) ! (r * cols (s\<lparr>dirty := (dirty s)[nat row := 1]\<rparr>) + c)"
      using d(5) [of r c] a(1,3) by simp
  qed (simp_all add: d)
qed

lemma engine_ok_markAllDirty:
  assumes "engine_ok s"
  shows "engine_ok (markAllDirty s)"
proof (rule engine_okI)
  note d = engine_okD [OF assms]
  show "size' (markAllDirty s) = rows (markAllDirty s) * cols (markAllDirty s)"
    "length (prev (markAllDirty s)) = rows (markAllDirty s) * cols (markAllDirty s)"
    "length (curr (markAllDirty s)) = rows (markAllDirty s) * cols (markAllDirty s)"
    "length (dirty (markAllDirty s)) = rows (markAllDirty s)"
    by (simp_all add: markAllDirty_def d)
  fix r c
  assume "r < rows (markAllDirty s)" "dirty (markAllDirty s) ! r \<noteq> 1"
  then have False using d(4) by (simp add: markAllDirty_def)
  then show "prev (markAllDirty s) ! (r * cols (markAllDirty s) + c)
             = curr (markAllDirty s) ! (r * cols (markAllDirty s) + c)" ..
qed

text \<open>A write into the back buffer at a cell of the grid, followed by \<open>markDirty\<close>.\<close>

lemma engine_ok_write:
  assumes "engine_ok s" "0 \<le> row" "row < int (rows s)" "0 \<le> col" "col < int (cols s)"
  shows "engine_ok (markDirty (s\<lparr>curr := (curr s)[nat row * cols s + nat col := cell]\<rparr>) row)"
proof -
  note d = engine_okD [OF assms(1)]
  let ?i = "nat row * cols s + nat col"
  let ?t = "s\<lparr>curr := (curr s)[?i := cell], dirty := (dirty s)[nat row := 1]\<rparr>"
  have m: "markDirty (s\<lparr>curr := (curr s)[?i := cell]\<rparr>) row = ?t"
    using assms(2,3) by (simp add: markDirty_def)
  have nr: "nat row < rows s" "nat col < cols s" using assms(2-5) by simp_all
  show ?thesis
    unfolding m
  proof (rule engine_okI)
    fix r c
    assume a: "r < rows ?t" "dirty ?t ! r \<noteq> 1" "c < cols ?t"
    have ne: "r \<noteq> nat row" using a(1,2) d(4) nr by auto
    then have nd: "dirty s ! r \<noteq> 1" using a(2) by simp
    have "r * cols s + c \<noteq> ?i"
      using other_row_index [OF ne, of c "cols s"] a(3) nr(2) by auto
    then have "curr ?t ! (r * cols s + c) = curr s ! (r * cols s + c)" by simp
    then show "prev ?t ! (r * cols ?t + c) = curr ?t ! (r * cols ?t + c)"
      using d(5) [OF _ nd, of c] a(1,3) by simp
  qed (simp_all add: d)
qed

lemma engine_ok_setCell:
  assumes "engine_ok s"
  shows "engine_ok (setCell s row col cell)"
proof (cases "row < 0 \<or> row \<ge> int (rows s) \<or> col < 0 \<or> col \<ge> int (cols s)")
  case True
  then show ?thesis using assms by (simp add: setCell_def)
next
  case False
  then have r: "0 \<le> row" "row < int (rows s)" "0 \<le> col" "col < int (cols s)" by simp_all
  show ?thesis
    using False assms engine_ok_write [OF assms r, of cell]
    by (simp add: setCell_def Let_def)
qed

lemma engine_ok_setCellWithAttrs:
  assumes "engine_ok s"
  shows "engine_ok (setCellWithAttrs s row col char attrs)"
proof (cases "row < 0 \<or> row \<ge> int (rows s) \<or> col < 0 \<or> col \<ge> int (cols s)")
  case True
  then show ?thesis using assms by (simp add: setCellWithAttrs_def)
next
  case False
  then have r: "0 \<le> row" "row < int (rows s)" "0 \<le> col" "col < int (cols s)" by simp_all
  show ?thesis
    using False assms engine_ok_write [OF assms r]
    by (simp add: setCellWithAttrs_def Let_def)
qed

lemma engine_ok_clear:
  assumes "engine_ok s"
  shows "engine_ok (clear s)"
proof (rule engine_okI)
  note d = engine_okD [OF assms]
  show "size' (clear s) = rows (clear s) * cols (clear s)"
    "length (prev (clear s)) = rows (clear s) * cols (clear s)"
    "length (curr (clear s)) = rows (clear s) * cols (clear s)"
    "length (dirty (clear s)) = rows (clear s)"
    by (simp_all add: clear_def markAllDirty_def d)
  fix r c
  assume "r < rows (clear s)" "dirty (clear s) ! r \<noteq> 1"
  then have False using d(4) by (simp add: clear_def markAllDirty_def)
  then show "prev (clear s) ! (r * cols (clear s) + c) = curr (clear s) ! (r * cols (clear s) + c)" ..
qed

lemma engine_ok_resize:
  assumes "engine_ok s"
  shows "engine_ok (resize s r c)"
proof (cases "r = rows s \<and> c = cols s")
  case True
  then show ?thesis using assms by (simp add: resize_def)
next
  case False
  then have m: "resize s r c = s\<lparr>rows := r, cols := c, size' := r * c,
              prev := replicate (r * c) emptyCell, curr := replicate (r * c) emptyCell,
              dirty := replicate r 1\<rparr>"
    by (auto simp add: resize_def Let_def)
  show ?thesis unfolding m by (rule engine_okI) simp_all
qed

text \<open>A frame: \<open>computeDiff\<close> keeps the invariant however it is left; it never spins; and
  when it returns, no row is dirty and the back buffer is untouched.\<close>

lemma computeDiff_frame:
  assumes "engine_ok s" "computeDiff s = (res, s')"
  shows "engine_ok s'" "rows s' = rows s" "cols s' = cols s" "curr s' = curr s"
    "res \<noteq> Inl Diverges" "\<And>out r. res = Inr out \<Longrightarrow> r < rows s \<Longrightarrow> \<not> isDirty s' r"
proof -
  let ?s = "s\<lparr>ansiState := \<lparr>attr = 0, fgS = None, bgS = None\<rparr>, hasSetBackground := False\<rparr>"
  note d = engine_okD [OF assms(1)]
  have ok: "engine_ok ?s" by (rule engine_okI) (simp_all add: d)
  obtain r1 s1 where run: "computeDiff_rows [0..<rows ?s] ?s [] (- 1) (- 1) = (r1, s1)"
    by (cases "computeDiff_rows [0..<rows ?s] ?s [] (- 1) (- 1)")
  have inrows: "\<forall>r \<in> set [0..<rows ?s]. r < rows ?s" by simp
  note inv = computeDiff_rows_inv [OF ok inrows run]
  have i1: "engine_ok s1" using inv [THEN conjunct1] .
  have i2: "rows s1 = rows ?s" using inv [THEN conjunct2, THEN conjunct1] .
  have i3: "cols s1 = cols ?s" using inv [THEN conjunct2, THEN conjunct2, THEN conjunct1] .
  have i4: "curr s1 = curr ?s"
    using inv [THEN conjunct2, THEN conjunct2, THEN conjunct2, THEN conjunct1] .
  have i5: "r1 \<noteq> Inl Diverges"
    using inv [THEN conjunct2, THEN conjunct2, THEN conjunct2, THEN conjunct2, THEN conjunct1] .
  have i7: "(\<exists>x. r1 = Inr x) \<longrightarrow> (\<forall>r \<in> set [0..<rows ?s]. \<not> isDirty s1 r)"
    using inv [THEN conjunct2, THEN conjunct2, THEN conjunct2, THEN conjunct2, THEN conjunct2,
      THEN conjunct2] .
  have same: "s' = s1"
    using assms(2) run
    by (cases r1) (auto simp add: computeDiff_def Let_def split: prod.splits if_splits)
  have res: "(\<exists>x. r1 = Inr x) = (\<exists>out. res = Inr out)" "res = Inl Diverges \<longleftrightarrow> r1 = Inl Diverges"
    using assms(2) run
    by (cases r1; auto simp add: computeDiff_def Let_def split: prod.splits if_splits)+
  show "engine_ok s'" using i1 same by simp
  show "rows s' = rows s" using i2 same by simp
  show "cols s' = cols s" using i3 same by simp
  show "curr s' = curr s" using i4 same by simp
  show "res \<noteq> Inl Diverges" using i5 res(2) by simp
  show "\<not> isDirty s' r" if "res = Inr out" "r < rows s" for out r
    using i7 res(1) that same by auto
qed

lemma engine_ok_computeDiff:
  assumes "engine_ok s"
  shows "engine_ok (snd (computeDiff s))"
  using computeDiff_frame(1) [OF assms, of "fst (computeDiff s)" "snd (computeDiff s)"] by simp

lemma reachable_engine_ok: "reachable s \<Longrightarrow> engine_ok s"
  by (induction rule: reachable.induct)
     (simp_all add: engine_ok_new engine_ok_setCellWithAttrs engine_ok_setCell engine_ok_clear
        engine_ok_markDirty engine_ok_markAllDirty engine_ok_resize engine_ok_computeDiff)

text \<open>A frame on an engine without dirty rows is empty and changes nothing but the tracked
  terminal state.\<close>

lemma computeDiff_idle:
  assumes "\<forall>r < rows s. \<not> isDirty s r"
  shows "fst (computeDiff s) = Inr []"
proof -
  let ?s = "s\<lparr>ansiState := \<lparr>attr = 0, fgS = None, bgS = None\<rparr>, hasSetBackground := False\<rparr>"
  have "\<forall>r \<in> set [0..<rows ?s]. \<not> isDirty ?s r" using assms by (simp add: isDirty_def)
  from computeDiff_rows_clean [OF this, of "[]" "- 1" "- 1"]
  show ?thesis by (simp add: computeDiff_def Let_def)
qed

section \<open>Frames on small grids\<close>

text \<open>The cells of the scenarios and what the engine reads back from them.\<close>

lemma red_code: "encodeColor (Some (Hex ''#ff0000'')) = 63745"
proof -
  have h: "hexChannels ''#ff0000'' = Some (255, 0, 0)" by (simp add: hex_eval)
  show ?thesis using encode_hex_value [OF h] by simp
qed

lemma red_field: "decodeColor 63745 = Some (Hex ''#ff0000'')"
proof -
  have h: "hexChannels ''#ff0000'' = Some (255, 0, 0)" by (simp add: hex_eval)
  show ?thesis using decode_encode_hex [OF h] unfolding red_code by (simp add: toString16_eval)
qed

lemma cell_empty: "emptyCell = (0x20, 0)"
  by (simp add: emptyCell_def packCellPart_def firstCodePoint_def str_def ATTR_SHIFT_def
      CHAR_MASK_def Let_def)

lemma cell_X_red: "packCell (str ''X'') 0 None (Some (Hex ''#ff0000'')) = (0x58, 0xF901)"
  by (simp add: packCell_def Let_def red_code encodeColor_def [of None] COLOR_NONE_def
      firstCodePoint_def str_def ATTR_SHIFT_def CHAR_MASK_def)

lemma cell_Y: "packCell (str ''Y'') 0 None None = (0x59, 0)"
  by (simp add: packCell_def Let_def encodeColor_def COLOR_NONE_def firstCodePoint_def str_def
      ATTR_SHIFT_def CHAR_MASK_def)

lemma read_X_red:
  "unpackAttr (0x58, 0xF901) = 0" "unpackFgColor (0x58, 0xF901) = None"
  "unpackBgColor (0x58, 0xF901) = Some (Hex ''#ff0000'')"
  "unpackChar (0x58, 0xF901) = Inr (str ''X'')"
proof -
  show "unpackAttr (0x58, 0xF901) = 0" by (simp add: unpackAttr_def ATTR_SHIFT_def)
  show "unpackFgColor (0x58, 0xF901) = None"
    by (simp add: unpackFgColor_def decodeColor_def COLOR_NONE_def)
  have "unpackBgColor (0x58, 0xF901) = decodeColor 63745" by (simp add: unpackBgColor_def)
  then show "unpackBgColor (0x58, 0xF901) = Some (Hex ''#ff0000'')" by (simp only: red_field)
  show "unpackChar (0x58, 0xF901) = Inr (str ''X'')"
    by (simp add: unpackChar_def CHAR_MASK_def str_def Let_def)
qed

lemma read_Y:
  "unpackAttr (0x59, 0) = 0" "unpackFgColor (0x59, 0) = None" "unpackBgColor (0x59, 0) = None"
  "unpackChar (0x59, 0) = Inr (str ''Y'')"
  by (simp_all add: unpackAttr_def ATTR_SHIFT_def unpackFgColor_def unpackBgColor_def
      decodeColor_def COLOR_NONE_def unpackChar_def CHAR_MASK_def str_def Let_def)

lemma read_Y_palette0:
  "unpackAttr (0x59, 1) = 0" "unpackFgColor (0x59, 1) = None"
  "unpackBgColor (0x59, 1) = Some (Palette 0)" "unpackChar (0x59, 1) = Inr (str ''Y'')"
  by (simp_all add: unpackAttr_def ATTR_SHIFT_def unpackFgColor_def unpackBgColor_def
      decodeColor_def COLOR_NONE_def COLOR_PALETTE_START_def unpackChar_def CHAR_MASK_def str_def
      Let_def)

lemma showNat_digit: "n < 10 \<Longrightarrow> showNat n = [char_of (48 + n)]"
  by (simp add: showNat.simps [of n])

lemma showNat_more: "\<not> n < 10 \<Longrightarrow> showNat n = showNat (n div 10) @ [char_of (48 + n mod 10)]"
  by (simp add: showNat.simps [of n])

lemmas grid_eval =
  setCellWithAttrs_def setCell_def newDiffEngine_def cellAt_def cellEquals_def markDirty_def
  attributesToByte_def noAttributes_def redBackground_def cell_X_red cell_Y cell_empty Let_def
  replicate_numeral_Cons

lemmas frame_eval =
  computeDiff_rows.simps computeDiff_cols.simps isDirty_def cellAt_def
  findRunEnd_def findRunEnd_loop.simps runHasChanges_def cellEquals_def outputRun_def
  generateStateChange_def getCachedColorSequence_def colorSequenceParts_def colorParts_def
  colorToAnsi_def moveTo_def ESC_def ESC_RESET_def slice2m1_def str_def Let_def
  showNat_digit showNat_more char_of_def bit_Suc_0_iff hex_eval upt_conv_Cons
  read_X_red read_Y read_Y_palette0

lemma gridXY_val:
  "gridXY = \<lparr>rows = 1, cols = 2, size' = 2, prev = [(0x20, 0), (0x20, 0)],
            curr = [(0x58, 0xF901), (0x59, 0)], dirty = [1],
            ansiState = \<lparr>attr = 0, fgS = None, bgS = None\<rparr>, hasSetBackground = False\<rparr>"
  by (simp add: gridXY_def grid_eval)


lemma gridXP_val:
  "gridXP = \<lparr>rows = 1, cols = 2, size' = 2, prev = [(0x20, 0), (0x20, 0)],
            curr = [(0x58, 0xF901), (0x59, 1)], dirty = [1],
            ansiState = \<lparr>attr = 0, fgS = None, bgS = None\<rparr>, hasSetBackground = False\<rparr>"
  by (simp add: gridXP_def grid_eval)

text \<open>The frames of the three grids.\<close>

lemma gridXY_frame:
  "computeDiff gridXY
   = (Inr (str ([CHR 0x1b] @ ''[1;1H'' @ [CHR 0x1b] @ ''[48;2;255;0;0mX'' @ [CHR 0x1b] @ ''[49mY'')),
      \<lparr>rows = 1, cols = 2, size' = 2, prev = [(0x58, 0xF901), (0x59, 0)],
       curr = [(0x58, 0xF901), (0x59, 0)], dirty = [0],
       ansiState = \<lparr>attr = 0, fgS = None, bgS = None\<rparr>, hasSetBackground = True\<rparr>)"
  unfolding gridXY_val by (simp add: computeDiff_def frame_eval)


lemma gridXP_frame:
  "computeDiff gridXP
   = (Inr (str ([CHR 0x1b] @ ''[1;1H'' @ [CHR 0x1b] @ ''[48;2;255;0;0mXY'')),
      \<lparr>rows = 1, cols = 2, size' = 2, prev = [(0x58, 0xF901), (0x59, 1)],
       curr = [(0x58, 0xF901), (0x59, 1)], dirty = [0],
       ansiState = \<lparr>attr = 0, fgS = None, bgS = Some (Palette 0)\<rparr>, hasSetBackground = True\<rparr>)"
  unfolding gridXP_val by (simp add: computeDiff_def frame_eval)

lemma gridXY_body:
  "frameBody gridXY
   = str ([CHR 0x1b] @ ''[1;1H'' @ [CHR 0x1b] @ ''[48;2;255;0;0mX'' @ [CHR 0x1b] @ ''[49mY'')"
  unfolding gridXY_val by (simp add: frameBody_def frame_eval)


text \<open>With characters that \<^verbatim>\<open>String.fromCodePoint\<close> accepts the frame returns.\<close>

lemma runChars_printable:
  assumes "list_all (\<lambda>cell. unat (fst cell AND CHAR_MASK) \<le> 0x10ffff) cur"
  shows "\<exists>t. runChars cur off is = Inr t"
proof (induction "is")
  case Nil
  show ?case by simp
next
  case (Cons i "is")
  then obtain t where t: "runChars cur off is = Inr t" by blast
  show ?case
  proof (cases "cellAt cur (off + i)")
    case None
    then show ?thesis using t by simp
  next
    case (Some cell)
    then have "cell \<in> set cur" by (auto simp add: cellAt_def split: if_splits)
    then have "unat (fst cell AND CHAR_MASK) \<le> 0x10ffff"
      using assms by (simp add: list_all_iff)
    then have "unpackChar cell = Inr [unat (fst cell AND CHAR_MASK)]"
      by (simp add: unpackChar_def Let_def)
    then show ?thesis using Some t by simp
  qed
qed

lemma outputRun_printable:
  assumes "printable s"
  shows "\<exists>t s1. outputRun s row a b x y z = (Inr t, s1)"
proof -
  obtain sc s1 where g: "generateStateChange s x y z = (sc, s1)"
    by (cases "generateStateChange s x y z")
  have c: "curr s1 = curr s" using generateStateChange_frame [of s x y z] g by simp
  obtain t where "runChars (curr s1) (row * cols s) [a..<b] = Inr t"
    using runChars_printable [of "curr s1"] assms c unfolding printable_def by auto
  then show ?thesis by (simp add: outputRun_def g Let_def)
qed

lemma computeDiff_cols_printable:
  assumes "printable s" "length (curr s) = n" "row * cols s + cols s \<le> n"
  shows "\<exists>x s'. computeDiff_cols s row col outp lr lc = (Inr x, s')"
  using assms
proof (induction "cols s - col" arbitrary: s col outp lr lc rule: less_induct)
  case less
  let ?off = "row * cols s"
  show ?case
  proof (cases "col < cols s")
    case False
    then show ?thesis by (simp add: computeDiff_cols.simps [of s row col])
  next
    case True
    have inr: "?off + col < n" using True less.prems(3) by simp
    define c0 where "c0 = curr s ! (?off + col)"
    have cell: "cellAt (curr s) (?off + col) = Some c0"
      using inr less.prems(2) by (simp add: cellAt_def c0_def)
    define runEnd where "runEnd = findRunEnd s row col (unpackAttr c0) (unpackFgColor c0) (unpackBgColor c0)"
    have gt: "col < runEnd" unfolding runEnd_def using findRunEnd_gt [OF True cell] .
    show ?thesis
    proof (cases "runHasChanges s row col runEnd")
      case False
      have step: "computeDiff_cols s row col outp lr lc = computeDiff_cols s row runEnd outp lr lc"
        using True cell False
        by (simp add: computeDiff_cols.simps [of s row col] runEnd_def Let_def)
      show ?thesis
        unfolding step
        using less.hyps [of s runEnd outp lr lc] gt True less.prems by simp
    next
      case changed: True
      obtain t s1 where orun: "outputRun s row col runEnd (unpackAttr c0) (unpackFgColor c0) (unpackBgColor c0) = (Inr t, s1)"
        using outputRun_printable [OF less.prems(1)] by blast
      note fr = outputRun_frame [OF orun]
      have k1: "cols s1 = cols s" "curr s1 = curr s" using fr by simp_all
      have p1: "printable s1" using less.prems(1) k1 by (simp add: printable_def)
      define o1 where "o1 = (if lr \<noteq> int row \<or> lc \<noteq> int col then outp @ moveTo (row + 1) (col + 1) else outp)"
      define lr1 where "lr1 = (if lr \<noteq> int row \<or> lc \<noteq> int col then int row else lr)"
      have step: "computeDiff_cols s row col outp lr lc
                  = computeDiff_cols s1 row runEnd (o1 @ t) lr1 (int runEnd)"
        using True cell changed orun
        by (simp add: computeDiff_cols.simps [of s row col] runEnd_def Let_def o1_def lr1_def)
      show ?thesis
        unfolding step
        using less.hyps [of s1 runEnd "o1 @ t" lr1 "int runEnd"] gt True less.prems(2,3) p1 k1
        by simp
    qed
  qed
qed

lemma computeDiff_rows_printable:
  assumes "engine_ok s" "printable s" "\<forall>r \<in> set rs. r < rows s"
  shows "\<exists>x s'. computeDiff_rows rs s outp lr lc = (Inr x, s')"
  using assms
proof (induction rs arbitrary: s outp lr lc)
  case Nil
  show ?case by simp
next
  case (Cons row rest)
  have rr: "row < rows s" and rest: "\<forall>r \<in> set rest. r < rows s" using Cons.prems(3) by simp_all
  note d = engine_okD [OF Cons.prems(1)]
  show ?case
  proof (cases "isDirty s row")
    case False
    show ?thesis
      unfolding rows_step_clean [OF False]
      using Cons.IH [OF Cons.prems(1,2) rest] .
  next
    case True
    have fit: "row * cols s + cols s \<le> rows s * cols s" using row_in_buffer [OF rr] .
    obtain x s1 where cl: "computeDiff_cols s row 0 outp lr lc = (Inr x, s1)"
      using computeDiff_cols_printable [OF Cons.prems(2) d(3) fit] by blast
    obtain o' lr' lc' where x: "x = (o', lr', lc')" by (cases x)
    let ?s2 = "s1\<lparr>dirty := (dirty s1)[row := 0]\<rparr>"
    have one: "computeDiff_rows [row] s outp lr lc = (Inr (o', lr', lc'), ?s2)"
      using rows_step_ok [OF True cl [unfolded x], of "[]"] by simp
    have "\<forall>r \<in> set [row]. r < rows s" using rr by simp
    note inv = computeDiff_rows_inv [OF Cons.prems(1) this one]
    have ok2: "engine_ok ?s2" using inv [THEN conjunct1] .
    have r2: "rows ?s2 = rows s" using inv [THEN conjunct2, THEN conjunct1] .
    have c2: "curr ?s2 = curr s"
      using inv [THEN conjunct2, THEN conjunct2, THEN conjunct2, THEN conjunct1] .
    have p2: "printable ?s2" using Cons.prems(2) c2 unfolding printable_def by simp
    have rest2: "\<forall>r \<in> set rest. r < rows ?s2" using rest r2 by simp
    show ?thesis
      unfolding rows_step_ok [OF True cl [unfolded x]]
      using Cons.IH [OF ok2 p2 rest2] .
  qed
qed

lemma computeDiff_returns:
  assumes "engine_ok s" "printable s"
  shows "\<exists>out. fst (computeDiff s) = Inr out"
proof -
  let ?s = "s\<lparr>ansiState := \<lparr>attr = 0, fgS = None, bgS = None\<rparr>, hasSetBackground := False\<rparr>"
  note d = engine_okD [OF assms(1)]
  have ok: "engine_ok ?s" by (rule engine_okI) (simp_all add: d)
  have pr: "printable ?s" using assms(2) by (simp add: printable_def)
  have "\<forall>r \<in> set [0..<rows ?s]. r < rows ?s" by simp
  from computeDiff_rows_printable [OF ok pr this, of "[]" "- 1" "- 1"]
  obtain x s' where run: "computeDiff_rows [0..<rows ?s] ?s [] (- 1) (- 1) = (Inr x, s')" by blast
  obtain o' lr' lc' where x: "x = (o', lr', lc')" by (cases x)
  show ?thesis
    using run unfolding x by (simp add: computeDiff_def Let_def)
qed

text \<open>
  Claim C1.  In every state an engine can reach, \<open>computeDiff\<close> never spins, and it
  returns when every character of the back buffer is one \<^verbatim>\<open>String.fromCodePoint\<close>
  accepts.  When it returns, the front buffer equals the back buffer, no row is dirty as
  \<open>isDirty\<close> reads the flags, and a second \<open>computeDiff\<close> right after it returns the empty
  string.
\<close>

theorem frame_leaves_buffers_equal:
  assumes "reachable s"
  shows "fst (computeDiff s) \<noteq> Inl Diverges
     \<and> (printable s \<longrightarrow> (\<exists>out. fst (computeDiff s) = Inr out))
     \<and> ((\<exists>out. fst (computeDiff s) = Inr out) \<longrightarrow>
          prev (snd (computeDiff s)) = curr (snd (computeDiff s))
          \<and> (\<forall>row < rows (snd (computeDiff s)). \<not> isDirty (snd (computeDiff s)) row)
          \<and> fst (computeDiff (snd (computeDiff s))) = Inr [])"
proof -
  have ok: "engine_ok s" using assms by (rule reachable_engine_ok)
  obtain res s' where cd: "computeDiff s = (res, s')" by (cases "computeDiff s")
  note fr = computeDiff_frame [OF ok cd]
  have 1: "fst (computeDiff s) \<noteq> Inl Diverges" using fr(5) cd by simp
  have 2: "printable s \<longrightarrow> (\<exists>out. fst (computeDiff s) = Inr out)"
    using computeDiff_returns [OF ok] by blast
  have 3: "prev s' = curr s' \<and> (\<forall>row < rows s'. \<not> isDirty s' row) \<and> fst (computeDiff s') = Inr []"
    if "res = Inr out" for out
  proof -
    have clean: "\<forall>row < rows s'. \<not> isDirty s' row" using fr(6) [OF that] fr(2) by simp
    have "prev s' = curr s'" using synced_buffers_equal [OF fr(1) clean] .
    moreover have "fst (computeDiff s') = Inr []" using computeDiff_idle [OF clean] .
    ultimately show ?thesis using clean by simp
  qed
  show ?thesis using 1 2 3 cd by auto
qed

theorem frame_leaves_buffers_equal_witness:
  "reachable gridXY \<and> printable gridXY
   \<and> fst (computeDiff gridXY)
       = Inr (str ([CHR 0x1b] @ ''[1;1H'' @ [CHR 0x1b] @ ''[48;2;255;0;0mX'' @ [CHR 0x1b] @ ''[49mY''))
   \<and> prev (snd (computeDiff gridXY)) = curr (snd (computeDiff gridXY))
   \<and> \<not> isDirty (snd (computeDiff gridXY)) 0
   \<and> fst (computeDiff (snd (computeDiff gridXY))) = Inr []"
proof -
  have r: "reachable gridXY"
    unfolding gridXY_def by (intro reachable.intros)
  have p: "printable gridXY"
    unfolding gridXY_val by (simp add: printable_def CHAR_MASK_def)
  have f: "fst (computeDiff gridXY)
       = Inr (str ([CHR 0x1b] @ ''[1;1H'' @ [CHR 0x1b] @ ''[48;2;255;0;0mX'' @ [CHR 0x1b] @ ''[49mY''))"
    by (simp add: gridXY_frame)
  have rows: "(0::nat) < rows (snd (computeDiff gridXY))" by (simp add: gridXY_frame)
  from frame_leaves_buffers_equal [OF r] f rows
  show ?thesis using r p by auto
qed

section \<open>The background reset\<close>



section \<open>The reset at the end of a frame\<close>










section \<open>Palette index 0\<close>

lemma colorParts_palette0: "colorParts (Some (Palette 0)) isBg = []"
  by (simp add: colorParts_def)

text \<open>
  Claim C10.  The builders test colours for truthiness, so they produce no code for
  palette index 0: \<open>colorSequenceParts\<close> and \<open>buildAnsiParts\<close> give for it what they give
  for no colour.  But \<open>generateStateChange\<close> compares with \<^verbatim>\<open>undefined\<close> where it decides
  on the background reset and where it tracks the state.  With the attribute byte and
  the foreground unchanged and a tracked background that is a colour other than palette
  index 0: for the new background palette index 0 it emits the foreground codes alone,
  with neither 49 nor a background code, and it tracks palette index 0 as a background
  that has been set; for the default background it emits 49.
\<close>

theorem palette0_background_is_not_reset:
  assumes "attr (ansiState s) = newAttr" and "fgS (ansiState s) = newFg"
    and "bgS (ansiState s) = Some c" and "c \<noteq> Palette 0"
  shows "colorSequenceParts (Some (Palette 0)) (Some (Palette 0)) r = colorSequenceParts None None r
     \<and> buildAnsiParts (attrs\<lparr>fg := Some (Palette 0), bg := Some (Palette 0)\<rparr>)
         = buildAnsiParts (attrs\<lparr>fg := None, bg := None\<rparr>)
     \<and> fst (generateStateChange s newAttr newFg (Some (Palette 0)))
         = getCachedColorSequence newFg None False
     \<and> fst (generateStateChange s newAttr newFg None)
         = ESC @ joinWith (str '';'') (str ''49'' # colorParts newFg False) @ str ''m''
     \<and> bgS (ansiState (snd (generateStateChange s newAttr newFg (Some (Palette 0))))) = Some (Palette 0)
     \<and> hasSetBackground (snd (generateStateChange s newAttr newFg (Some (Palette 0))))"
proof -
  have 1: "colorSequenceParts (Some (Palette 0)) (Some (Palette 0)) r = colorSequenceParts None None r"
    by (simp add: colorSequenceParts_def colorParts_def)
  have 2: "buildAnsiParts (attrs\<lparr>fg := Some (Palette 0), bg := Some (Palette 0)\<rparr>)
         = buildAnsiParts (attrs\<lparr>fg := None, bg := None\<rparr>)"
    by (simp add: buildAnsiParts_def colorParts_def attributesToByte_def Let_def)
  have "fst (generateStateChange s newAttr newFg (Some (Palette 0)))
         = getCachedColorSequence newFg (Some (Palette 0)) False"
    using assms by (simp add: generateStateChange_def Let_def)
  also have "\<dots> = getCachedColorSequence newFg None False"
    by (simp add: getCachedColorSequence_def colorSequenceParts_def colorParts_def Let_def)
  finally have 3: "fst (generateStateChange s newAttr newFg (Some (Palette 0)))
         = getCachedColorSequence newFg None False" .
  have "fst (generateStateChange s newAttr newFg None) = getCachedColorSequence newFg None True"
    using assms by (simp add: generateStateChange_def Let_def)
  also have "\<dots> = ESC @ joinWith (str '';'') (str ''49'' # colorParts newFg False) @ str ''m''"
    by (simp add: getCachedColorSequence_def colorSequenceParts_def colorParts_def [of None] Let_def)
  finally have 4: "fst (generateStateChange s newAttr newFg None)
         = ESC @ joinWith (str '';'') (str ''49'' # colorParts newFg False) @ str ''m''" .
  have 5: "bgS (ansiState (snd (generateStateChange s newAttr newFg (Some (Palette 0))))) = Some (Palette 0)"
    "hasSetBackground (snd (generateStateChange s newAttr newFg (Some (Palette 0))))"
    using assms by (simp_all add: generateStateChange_def Let_def)
  from 1 2 3 4 5 show ?thesis by (intro conjI)
qed

text \<open>After the red background of \<open>X\<close>: nothing is emitted for a cell with background
  palette index 0, \<^verbatim>\<open>ESC [ 49 m\<close> for a cell with the default background; and the frame of
  \<open>gridXP\<close> draws \<open>Y\<close> without any code after \<open>X\<close> and ends without a reset.\<close>

theorem palette0_background_witness:
  "attr (ansiState (snd (generateStateChange (newDiffEngine 1 2) 0 None (Some (Hex ''#ff0000''))))) = 0
   \<and> fgS (ansiState (snd (generateStateChange (newDiffEngine 1 2) 0 None (Some (Hex ''#ff0000''))))) = None
   \<and> bgS (ansiState (snd (generateStateChange (newDiffEngine 1 2) 0 None (Some (Hex ''#ff0000'')))))
       = Some (Hex ''#ff0000'')
   \<and> Hex ''#ff0000'' \<noteq> Palette 0
   \<and> fst (generateStateChange
            (snd (generateStateChange (newDiffEngine 1 2) 0 None (Some (Hex ''#ff0000''))))
            0 None (Some (Palette 0))) = []
   \<and> fst (generateStateChange
            (snd (generateStateChange (newDiffEngine 1 2) 0 None (Some (Hex ''#ff0000''))))
            0 None None) = str ([CHR 0x1b] @ ''[49m'')
   \<and> fst (computeDiff gridXP)
       = Inr (str ([CHR 0x1b] @ ''[1;1H'' @ [CHR 0x1b] @ ''[48;2;255;0;0mXY''))
   \<and> fst (computeDiff gridXY)
       = Inr (str ([CHR 0x1b] @ ''[1;1H'' @ [CHR 0x1b] @ ''[48;2;255;0;0mX'' @ [CHR 0x1b] @ ''[49mY''))"
proof -
  let ?s = "snd (generateStateChange (newDiffEngine 1 2) 0 None (Some (Hex ''#ff0000'')))"
  have a: "attr (ansiState ?s) = 0" "fgS (ansiState ?s) = None"
    "bgS (ansiState ?s) = Some (Hex ''#ff0000'')"
    by (simp_all add: generateStateChange_def newDiffEngine_def Let_def)
  have n: "Hex ''#ff0000'' \<noteq> Palette 0" by simp
  note t = palette0_background_is_not_reset [OF a n]
  have 3: "fst (generateStateChange ?s 0 None (Some (Palette 0))) = getCachedColorSequence None None False"
    using t [THEN conjunct2, THEN conjunct2, THEN conjunct1] .
  have 4: "fst (generateStateChange ?s 0 None None)
           = ESC @ joinWith (str '';'') (str ''49'' # colorParts None False) @ str ''m''"
    using t [THEN conjunct2, THEN conjunct2, THEN conjunct2, THEN conjunct1] .
  have e3: "fst (generateStateChange ?s 0 None (Some (Palette 0))) = []"
    unfolding 3 by (simp add: getCachedColorSequence_def colorSequenceParts_def colorParts_def Let_def)
  have e4: "fst (generateStateChange ?s 0 None None) = str ([CHR 0x1b] @ ''[49m'')"
    unfolding 4 by (simp add: colorParts_def ESC_def str_def)
  have 5: "fst (computeDiff gridXP)
       = Inr (str ([CHR 0x1b] @ ''[1;1H'' @ [CHR 0x1b] @ ''[48;2;255;0;0mXY''))"
    by (simp add: gridXP_frame)
  have 6: "fst (computeDiff gridXY)
       = Inr (str ([CHR 0x1b] @ ''[1;1H'' @ [CHR 0x1b] @ ''[48;2;255;0;0mX'' @ [CHR 0x1b] @ ''[49mY''))"
    by (simp add: gridXY_frame)
  from a n e3 e4 5 6 show ?thesis by (intro conjI)
qed

end
